theory Spec2Isabelle
  imports Complex_Main "HOL-Library.AList"
begin

section \<open>Data model of \<open>points-layer.js\<close>\<close>

text \<open>
  JavaScript objects are shared and mutable. A point object is therefore an address
  (\<open>point_ref\<close>) into a heap of point records: the data store, the notifications and
  the markers all hold the same object, and a write to \<open>point.time\<close> is seen by all of
  them. JavaScript numbers are modelled as reals; the only arithmetic of the layer is
  one subtraction (\<open>_updatePoint\<close>), one addition (\<open>_onPointHandleDragMove\<close>) and the
  clamp of \<open>_pointHandleDragBoundFunc\<close>.
\<close>

type_synonym point_ref = nat

record Point =
  point_id :: string
  time :: real
  editable :: bool
  color :: "string option"

text \<open>\<open>this._peaks.options\<close>; \<open>None\<close> is \<open>undefined\<close>.\<close>

record Options =
  pointMarkerColor :: "string option"
  fontFamily :: "string option"
  fontSize :: "real option"
  fontStyle :: "string option"

text \<open>
  \<open>this._view\<close>: the viewport, read only by the layer. \<open>getWidth_view\<close> is the view's
  \<open>getWidth()\<close>.
\<close>

record View =
  getStartTime :: real
  getEndTime :: real
  getFrameOffset :: real
  getWidth_view :: real
  getName :: string
  timeToPixels :: "real \<Rightarrow> real"
  pixelOffsetToTime :: "real \<Rightarrow> real"

text \<open>The object literal handed to the host's marker factory in \<open>_createPointMarker\<close>.\<close>

record MarkerOptions =
  opt_point :: point_ref
  opt_draggable :: bool
  opt_color :: "string option"
  opt_fontFamily :: string
  opt_fontSize :: real
  opt_fontStyle :: string
  opt_view :: string

text \<open>
  Modelled from the spec: the \<open>PointMarker\<close> class (\<open>point-marker.js\<close>) is not part of
  the sources. A marker is a visual handle for one point: it keeps a reference to its
  point, a horizontal position, a width, and an internal time label (\<open>None\<close> until
  \<open>timeUpdated\<close> is first called). \<open>uid\<close> is the identity of the JavaScript object;
  \<open>marker\<close> stands for the handle built by the host factory and records the options the
  factory was called with. The event callbacks passed to the constructor are always
  the layer's own handlers and are left out.
\<close>

record PointMarker =
  uid :: nat
  getPoint :: point_ref
  draggable :: bool
  marker :: MarkerOptions
  getX :: real
  getWidth :: real
  timeLabel :: "real option"

text \<open>
  What a \<open>PointMarker\<close> object holds under a property name: nothing, a falsy value,
  or a truthy value that is not itself a marker.
\<close>

datatype member = NoProperty | FalsyProperty | TruthyProperty

text \<open>
  Everything the layer reads but does not own. \<open>points_find\<close> is
  \<open>this._peaks.points.find\<close>: it reads the current point objects, hence the heap
  argument. \<open>isVisible\<close> is \<open>Point.prototype.isVisible\<close>, owned by the point type;
  the layer only calls it. \<open>groupWidth\<close> is the width the scene graph reports for a
  newly built marker and \<open>markerAbsoluteY\<close> the vertical position it reports for a
  marker (the layer never changes it). \<open>markerProperty\<close> tells which property names a
  marker object carries, its class not being part of the sources.
\<close>

record Env =
  options :: Options
  points_find :: "(point_ref \<Rightarrow> Point) \<Rightarrow> real \<Rightarrow> real \<Rightarrow> point_ref list"
  view :: View
  isVisible :: "Point \<Rightarrow> real \<Rightarrow> real \<Rightarrow> bool"
  groupWidth :: real
  markerAbsoluteY :: "nat \<Rightarrow> real"
  markerProperty :: "PointMarker \<Rightarrow> string \<Rightarrow> member"

text \<open>
  \<open>this._dragPointMarker\<close> is never set by the constructor, so it starts as
  \<open>undefined\<close>; drag-end stores \<open>null\<close>; drag-start stores whatever the registry
  lookup returns, a marker or (\<open>Other\<close>) a value that is no marker.
\<close>

datatype drag_ref = Undefined | Null | Marker nat | Other

datatype error = TypeError

datatype topic =
    Points_click | Points_dblclick | Points_mouseenter | Points_mouseleave
  | Points_contextmenu | Points_dragstart | Points_dragmove | Points_dragend

text \<open>
  The fields of the layer object. \<open>this._pointMarkers\<close> is a plain object used as a
  dictionary from point id to marker: \<open>pointMarkers\<close> holds its own properties as an
  association list in enumeration order, and \<open>pointMarkersProto\<close> is \<open>None\<close> as long as
  its prototype is \<open>Object.prototype\<close>. An assignment under the key \<open>__proto__\<close> does not
  create an own property but replaces the prototype by the assigned marker.
  \<open>layer\<close> lists the markers attached to the \<open>Konva.Layer\<close>.
\<close>

record PointsLayer =
  allowEditing :: bool
  pointMarkers :: "(string \<times> PointMarker) list"
  pointMarkersProto :: "PointMarker option"
  layer :: "nat list"
  dragPointMarker :: drag_ref

text \<open>
  The layer together with what surrounds it: the heap of point objects, the number
  of \<open>PointMarker\<close> objects constructed so far, the markers whose \<open>destroy()\<close> has been
  called, and the notifications emitted on the event bus.
\<close>

record World = PointsLayer +
  heap :: "point_ref \<Rightarrow> Point"
  constructed :: nat
  destroyed :: "nat list"
  emitted :: "(topic \<times> point_ref) list"

text \<open>
  A call either returns or throws; an exception leaves the state as it was when it
  was thrown.
\<close>

datatype 'a result = Returned 'a | Threw error World

fun state_of :: "World result \<Rightarrow> World" where
  "state_of (Returned w) = w"
| "state_of (Threw err w) = w"

section \<open>The registry object\<close>

text \<open>The property names every plain object inherits from \<open>Object.prototype\<close>.\<close>

definition objectPrototypeNames :: "string list" where
  "objectPrototypeNames =
     [''constructor'', ''hasOwnProperty'', ''isPrototypeOf'', ''propertyIsEnumerable'',
      ''toLocaleString'', ''toString'', ''valueOf'', ''__proto__'',
      ''__defineGetter__'', ''__defineSetter__'', ''__lookupGetter__'', ''__lookupSetter__'']"

text \<open>
  Where a marker found by a lookup lives: under an own key of the registry, or as the
  registry's prototype.
\<close>

datatype target = OwnKey string | Proto

text \<open>
  The value of \<open>this._pointMarkers[id]\<close>: \<open>undefined\<close>, an inherited value that is no
  marker (with its truthiness), or a marker.
\<close>

datatype slot = Absent | Inherited bool | Held target PointMarker

fun truthy :: "slot \<Rightarrow> bool" where
  "truthy Absent = False"
| "truthy (Inherited b) = b"
| "truthy (Held t pm) = True"

text \<open>
  Property lookup follows the prototype chain: own properties first, then the
  prototype. All members of \<open>Object.prototype\<close> are truthy; under \<open>__proto__\<close> the
  lookup returns the prototype object itself.
\<close>

definition lookup :: "Env \<Rightarrow> World \<Rightarrow> string \<Rightarrow> slot" where
  "lookup env w k =
     (case map_of (pointMarkers w) k of
        Some pm \<Rightarrow> Held (OwnKey k) pm
      | None \<Rightarrow>
          (case pointMarkersProto w of
             None \<Rightarrow> if k \<in> set objectPrototypeNames then Inherited True else Absent
           | Some proto \<Rightarrow>
               if k = ''__proto__'' then Held Proto proto
               else (case markerProperty env proto k of
                       TruthyProperty \<Rightarrow> Inherited True
                     | FalsyProperty \<Rightarrow> Inherited False
                     | NoProperty \<Rightarrow>
                         if k \<in> set objectPrototypeNames then Inherited True else Absent)))"

text \<open>\<open>this._pointMarkers[id] = pointMarker\<close>.\<close>

definition assignMarker :: "string \<Rightarrow> PointMarker \<Rightarrow> World \<Rightarrow> World" where
  "assignMarker k pm w =
     (if k = ''__proto__'' then w\<lparr>pointMarkersProto := Some pm\<rparr>
      else w\<lparr>pointMarkers := AList.update k pm (pointMarkers w)\<rparr>)"

definition target_of_key :: "string \<Rightarrow> target" where
  "target_of_key k = (if k = ''__proto__'' then Proto else OwnKey k)"

text \<open>
  A method that mutates a marker object rewrites the marker where it lives. A marker
  object is stored in one place only: under the id its point had when it was added.
\<close>

definition modifyMarker :: "target \<Rightarrow> (PointMarker \<Rightarrow> PointMarker) \<Rightarrow> World \<Rightarrow> World" where
  "modifyMarker t f w =
     (case t of
        OwnKey k \<Rightarrow>
          (case map_of (pointMarkers w) k of
             None \<Rightarrow> w
           | Some pm \<Rightarrow> w\<lparr>pointMarkers := AList.update k (f pm) (pointMarkers w)\<rparr>)
      | Proto \<Rightarrow> w\<lparr>pointMarkersProto := map_option f (pointMarkersProto w)\<rparr>)"

section \<open>Operations\<close>

definition defaultFontFamily :: string where
  "defaultFontFamily = ''sans-serif''"

definition defaultFontSize :: real where
  "defaultFontSize = 10"

definition defaultFontShape :: string where
  "defaultFontShape = ''normal''"

text \<open>JavaScript truthiness: \<open>undefined\<close>, the empty string and \<open>0\<close> are falsy.\<close>

definition truthy_string :: "string option \<Rightarrow> bool" where
  "truthy_string v = (case v of None \<Rightarrow> False | Some s \<Rightarrow> s \<noteq> [])"

text \<open>\<open>a || d\<close> for an optional string or number \<open>a\<close> and a constant \<open>d\<close>.\<close>

definition string_or :: "string option \<Rightarrow> string \<Rightarrow> string" where
  "string_or a d = (case a of None \<Rightarrow> d | Some s \<Rightarrow> if s \<noteq> [] then s else d)"

definition number_or :: "real option \<Rightarrow> real \<Rightarrow> real" where
  "number_or a d = (case a of None \<Rightarrow> d | Some n \<Rightarrow> if n \<noteq> 0 then n else d)"

definition enableEditing :: "World \<Rightarrow> bool \<Rightarrow> World" where
  "enableEditing w enable = w\<lparr>allowEditing := enable\<rparr>"

text \<open>
  \<open>_createPointMarker\<close>: builds the factory options, then constructs the marker
  object, which gets a new identity.
\<close>

definition createPointMarker :: "Env \<Rightarrow> World \<Rightarrow> point_ref \<Rightarrow> PointMarker \<times> World" where
  "createPointMarker env w p =
     (let pt = heap w p;
          editable' = (allowEditing w \<and> editable pt);
          mk = \<lparr>opt_point = p,
                opt_draggable = editable',
                opt_color = (if truthy_string (color pt) then color pt
                             else pointMarkerColor (options env)),
                opt_fontFamily = string_or (fontFamily (options env)) defaultFontFamily,
                opt_fontSize = number_or (fontSize (options env)) defaultFontSize,
                opt_fontStyle = string_or (fontStyle (options env)) defaultFontShape,
                opt_view = getName (view env)\<rparr>
      in (\<lparr>uid = constructed w, getPoint = p, draggable = editable', marker = mk,
           getX = 0, getWidth = groupWidth env, timeLabel = None\<rparr>,
          w\<lparr>constructed := Suc (constructed w)\<rparr>))"

text \<open>
  Modelled from the spec: \<open>PointMarker.prototype.addToLayer\<close> attaches the marker to
  the render surface.
\<close>

definition addToLayer :: "PointMarker \<Rightarrow> World \<Rightarrow> World" where
  "addToLayer pm w = w\<lparr>layer := layer w @ [uid pm]\<rparr>"

definition addPointMarker :: "Env \<Rightarrow> World \<Rightarrow> point_ref \<Rightarrow> PointMarker \<times> World" where
  "addPointMarker env w p =
     (let (pointMarker, w1) = createPointMarker env w p;
          w2 = assignMarker (point_id (heap w1 p)) pointMarker w1
      in (pointMarker, addToLayer pointMarker w2))"

text \<open>
  \<open>_findOrAddPointMarker\<close> returns whatever truthy value the lookup gives, marker or
  not; only a falsy value makes it add a marker.
\<close>

definition findOrAddPointMarker :: "Env \<Rightarrow> World \<Rightarrow> point_ref \<Rightarrow> slot \<times> World" where
  "findOrAddPointMarker env w p =
     (let pointMarker = lookup env w (point_id (heap w p))
      in if \<not> truthy pointMarker
         then (let (added, w1) = addPointMarker env w p
               in (Held (target_of_key (point_id (heap w p))) added, w1))
         else (pointMarker, w))"

text \<open>
  Modelled from the spec: \<open>PointMarker.prototype.setX\<close> and \<open>timeUpdated\<close> set the
  marker's horizontal position and its internal time label.
\<close>

definition setX :: "target \<Rightarrow> real \<Rightarrow> World \<Rightarrow> World" where
  "setX t v w = modifyMarker t (\<lambda>pm. pm\<lparr>getX := v\<rparr>) w"

definition timeUpdated :: "target \<Rightarrow> real \<Rightarrow> World \<Rightarrow> World" where
  "timeUpdated t tm w = modifyMarker t (\<lambda>pm. pm\<lparr>timeLabel := Some tm\<rparr>) w"

text \<open>
  \<open>_updatePoint\<close>: \<open>pointMarker.setX\<close> throws when the value found is not a marker.
\<close>

definition updatePoint :: "Env \<Rightarrow> World \<Rightarrow> point_ref \<Rightarrow> World result" where
  "updatePoint env w p =
     (let (pointMarker, w1) = findOrAddPointMarker env w p;
          pointMarkerOffset = timeToPixels (view env) (time (heap w1 p));
          pointMarkerX = pointMarkerOffset - getFrameOffset (view env)
      in case pointMarker of
           Held t pm \<Rightarrow> Returned (setX t pointMarkerX w1)
         | _ \<Rightarrow> Threw TypeError w1)"

text \<open>
  Modelled from the spec: \<open>PointMarker.prototype.destroy\<close> releases the marker's
  rendering resources, which detaches it from the layer.
\<close>

definition destroy :: "PointMarker \<Rightarrow> World \<Rightarrow> World" where
  "destroy pm w = w\<lparr>layer := removeAll (uid pm) (layer w),
                     destroyed := destroyed w @ [uid pm]\<rparr>"

text \<open>
  \<open>_removePoint\<close>: a truthy value that is no marker has no \<open>destroy\<close> method, so the
  call throws. \<open>delete\<close> removes an own property only.
\<close>

definition removePoint :: "Env \<Rightarrow> World \<Rightarrow> point_ref \<Rightarrow> World result" where
  "removePoint env w p =
     (let pointMarker = lookup env w (point_id (heap w p))
      in if truthy pointMarker
         then (case pointMarker of
                 Held t pm \<Rightarrow>
                   (let w1 = destroy pm w
                    in Returned (w1\<lparr>pointMarkers :=
                                     AList.delete (point_id (heap w1 p)) (pointMarkers w1)\<rparr>))
               | _ \<Rightarrow> Threw TypeError w)
         else Returned w)"

text \<open>
  The \<open>for ... in\<close> loop of \<open>_removeInvisiblePoints\<close> visits the keys the registry had
  when the loop started; \<open>objectHasProperty\<close> lets only own properties through, and a
  key deleted before its turn is skipped.
\<close>

fun removeInvisibleLoop ::
  "Env \<Rightarrow> real \<Rightarrow> real \<Rightarrow> string list \<Rightarrow> World \<Rightarrow> nat \<Rightarrow> (World \<times> nat) result" where
  "removeInvisibleLoop env startTime endTime [] w count = Returned (w, count)"
| "removeInvisibleLoop env startTime endTime (pointId # rest) w count =
     (case map_of (pointMarkers w) pointId of
        None \<Rightarrow> removeInvisibleLoop env startTime endTime rest w count
      | Some pm \<Rightarrow>
          (let point = getPoint pm in
           if \<not> isVisible env (heap w point) startTime endTime
           then (case removePoint env w point of
                   Threw err w' \<Rightarrow> Threw err w'
                 | Returned w' \<Rightarrow>
                     removeInvisibleLoop env startTime endTime rest w' (count + 1))
           else removeInvisibleLoop env startTime endTime rest w count))"

definition removeInvisiblePoints ::
  "Env \<Rightarrow> World \<Rightarrow> real \<Rightarrow> real \<Rightarrow> (World \<times> nat) result" where
  "removeInvisiblePoints env w startTime endTime =
     removeInvisibleLoop env startTime endTime (map fst (pointMarkers w)) w 0"

text \<open>\<open>points.forEach(this._updatePoint.bind(this))\<close>.\<close>

fun updateEach :: "Env \<Rightarrow> point_ref list \<Rightarrow> World \<Rightarrow> World result" where
  "updateEach env [] w = Returned w"
| "updateEach env (p # ps) w =
     (case updatePoint env w p of
        Threw err w' \<Rightarrow> Threw err w'
      | Returned w' \<Rightarrow> updateEach env ps w')"

definition updatePoints :: "Env \<Rightarrow> World \<Rightarrow> real \<Rightarrow> real \<Rightarrow> World result" where
  "updatePoints env w startTime endTime =
     (let points = points_find env (heap w) startTime endTime
      in case updateEach env points w of
           Threw err w' \<Rightarrow> Threw err w'
         | Returned w1 \<Rightarrow>
             (case removeInvisiblePoints env w1 startTime endTime of
                Threw err w' \<Rightarrow> Threw err w'
              | Returned (w2, count) \<Rightarrow> Returned w2))"

definition onPointsUpdate :: "Env \<Rightarrow> World \<Rightarrow> point_ref \<Rightarrow> World result" where
  "onPointsUpdate env w p =
     (let frameStartTime = getStartTime (view env);
          frameEndTime = getEndTime (view env)
      in case removePoint env w p of
           Threw err w' \<Rightarrow> Threw err w'
         | Returned w1 \<Rightarrow>
             (let w2 = (if isVisible env (heap w1 p) frameStartTime frameEndTime
                        then snd (addPointMarker env w1 p) else w1)
              in updatePoints env w2 frameStartTime frameEndTime))"

fun addEach :: "Env \<Rightarrow> real \<Rightarrow> real \<Rightarrow> point_ref list \<Rightarrow> World \<Rightarrow> World" where
  "addEach env frameStartTime frameEndTime [] w = w"
| "addEach env frameStartTime frameEndTime (p # ps) w =
     addEach env frameStartTime frameEndTime ps
       (if isVisible env (heap w p) frameStartTime frameEndTime
        then snd (addPointMarker env w p) else w)"

definition onPointsAdd :: "Env \<Rightarrow> World \<Rightarrow> point_ref list \<Rightarrow> World result" where
  "onPointsAdd env w ps =
     (let frameStartTime = getStartTime (view env);
          frameEndTime = getEndTime (view env);
          w1 = addEach env frameStartTime frameEndTime ps w
      in updatePoints env w1 frameStartTime frameEndTime)"

fun onPointsRemove :: "Env \<Rightarrow> World \<Rightarrow> point_ref list \<Rightarrow> World result" where
  "onPointsRemove env w [] = Returned w"
| "onPointsRemove env w (p # ps) =
     (case removePoint env w p of
        Threw err w' \<Rightarrow> Threw err w'
      | Returned w' \<Rightarrow> onPointsRemove env w' ps)"

text \<open>
  \<open>this._layer.removeChildren()\<close> detaches every child from the layer; then the
  registry is replaced by a new empty object. No marker's \<open>destroy()\<close> is called.
\<close>

definition onPointsRemoveAll :: "World \<Rightarrow> World" where
  "onPointsRemoveAll w = w\<lparr>layer := [], pointMarkers := [], pointMarkersProto := None\<rparr>"

definition onPointsDrag :: "Env \<Rightarrow> World \<Rightarrow> point_ref \<Rightarrow> World result" where
  "onPointsDrag env w p = updatePoint env w p"

text \<open>
  \<open>this._peaks.emit\<close>. The constructor subscribes the layer's own \<open>_onPointsDrag\<close> to
  \<open>points.dragstart\<close>, \<open>points.dragmove\<close> and \<open>points.dragend\<close> on the same bus, so
  a notification the layer emits under one of these topics is also delivered to the
  layer itself. Other listeners are outside the model, and so is the raw pointer
  event (\<open>evt\<close>) that every notification carries along.
\<close>

definition emit :: "Env \<Rightarrow> topic \<Rightarrow> point_ref \<Rightarrow> World \<Rightarrow> World result" where
  "emit env tp p w =
     (let w1 = w\<lparr>emitted := emitted w @ [(tp, p)]\<rparr>
      in if tp = Points_dragstart \<or> tp = Points_dragmove \<or> tp = Points_dragend
         then onPointsDrag env w1 p else Returned w1)"

text \<open>
  Modelled from the spec: \<open>Point.prototype._setTime\<close> (\<open>point.js\<close> is not part of the
  sources) is the single write path of \<open>point.time\<close>.
\<close>

definition setTime :: "point_ref \<Rightarrow> real \<Rightarrow> World \<Rightarrow> World" where
  "setTime p t w = w\<lparr>heap := (heap w)(p := (heap w p)\<lparr>time := t\<rparr>)\<rparr>"

text \<open>
  \<open>_onPointHandleDragMove\<close>: when the lookup gives no marker, \<open>pointMarker.getX()\<close>
  throws.
\<close>

definition onPointHandleDragMove :: "Env \<Rightarrow> World \<Rightarrow> point_ref \<Rightarrow> World result" where
  "onPointHandleDragMove env w p =
     (case lookup env w (point_id (heap w p)) of
        Held t pointMarker \<Rightarrow>
          (let markerX = getX pointMarker;
               offset = markerX + getWidth pointMarker;
               w1 = setTime p (pixelOffsetToTime (view env) offset) w;
               w2 = timeUpdated t (time (heap w1 p)) w1
           in emit env Points_dragmove p w2)
      | _ \<Rightarrow> Threw TypeError w)"

definition onPointHandleMouseEnter :: "Env \<Rightarrow> World \<Rightarrow> point_ref \<Rightarrow> World result" where
  "onPointHandleMouseEnter env w p = emit env Points_mouseenter p w"

definition onPointHandleMouseLeave :: "Env \<Rightarrow> World \<Rightarrow> point_ref \<Rightarrow> World result" where
  "onPointHandleMouseLeave env w p = emit env Points_mouseleave p w"

definition onPointHandleClick :: "Env \<Rightarrow> World \<Rightarrow> point_ref \<Rightarrow> World result" where
  "onPointHandleClick env w p = emit env Points_click p w"

definition onPointHandleDblClick :: "Env \<Rightarrow> World \<Rightarrow> point_ref \<Rightarrow> World result" where
  "onPointHandleDblClick env w p = emit env Points_dblclick p w"

definition onPointHandleContextMenu :: "Env \<Rightarrow> World \<Rightarrow> point_ref \<Rightarrow> World result" where
  "onPointHandleContextMenu env w p = emit env Points_contextmenu p w"

text \<open>The value \<open>_onPointHandleDragStart\<close> stores in \<open>this._dragPointMarker\<close>.\<close>

fun drag_ref_of :: "slot \<Rightarrow> drag_ref" where
  "drag_ref_of Absent = Undefined"
| "drag_ref_of (Inherited b) = Other"
| "drag_ref_of (Held t pm) = Marker (uid pm)"

definition onPointHandleDragStart :: "Env \<Rightarrow> World \<Rightarrow> point_ref \<Rightarrow> World result" where
  "onPointHandleDragStart env w p =
     emit env Points_dragstart p
       (w\<lparr>dragPointMarker := drag_ref_of (lookup env w (point_id (heap w p)))\<rparr>)"

definition onPointHandleDragEnd :: "Env \<Rightarrow> World \<Rightarrow> point_ref \<Rightarrow> World result" where
  "onPointHandleDragEnd env w p =
     emit env Points_dragend p (w\<lparr>dragPointMarker := Null\<rparr>)"

text \<open>
  Modelled from the spec: \<open>clamp\<close> (\<open>utils.js\<close> is not part of the sources) constrains
  a value to the interval between a minimum and a maximum.
\<close>

definition clamp :: "real \<Rightarrow> real \<Rightarrow> real \<Rightarrow> real" where
  "clamp v lo hi = min (max v lo) hi"

text \<open>
  \<open>_pointHandleDragBoundFunc\<close>: the horizontal position is clamped to the view, the
  vertical one is that of the marker of the drag session; without such a marker
  \<open>this._dragPointMarker.getAbsolutePosition()\<close> throws.
\<close>

definition pointHandleDragBoundFunc :: "Env \<Rightarrow> World \<Rightarrow> real \<times> real \<Rightarrow> (real \<times> real) result" where
  "pointHandleDragBoundFunc env w pos =
     (case dragPointMarker w of
        Marker u \<Rightarrow> Returned (clamp (fst pos) 0 (getWidth_view (view env)), markerAbsoluteY env u)
      | _ \<Rightarrow> Threw TypeError w)"

text \<open>
  Modelled from the spec: while a marker is dragged the scene graph (Konva, outside
  the sources) passes the pointer's position through the drag-bound function the
  marker was built with and places the marker at the horizontal position it returns,
  before the move handler runs.
\<close>

definition konvaDragTo :: "Env \<Rightarrow> point_ref \<Rightarrow> real \<times> real \<Rightarrow> World \<Rightarrow> World result" where
  "konvaDragTo env p pos w =
     (case pointHandleDragBoundFunc env w pos of
        Threw err w' \<Rightarrow> Threw err w'
      | Returned bound \<Rightarrow>
          (case lookup env w (point_id (heap w p)) of
             Held t pm \<Rightarrow> Returned (setX t (fst bound) w)
           | _ \<Rightarrow> Returned w))"

section \<open>Notifications and handler calls as events\<close>

datatype event =
    PointsUpdate point_ref
  | PointsAdd "point_ref list"
  | PointsRemove "point_ref list"
  | PointsRemoveAll
  | PointsDrag point_ref
  | HandleClick point_ref
  | HandleDblClick point_ref
  | HandleMouseEnter point_ref
  | HandleMouseLeave point_ref
  | HandleContextMenu point_ref
  | HandleDragStart point_ref
  | HandleDragMove point_ref
  | HandleDragEnd point_ref
  | HandleDragBound real real
  | UpdatePoints real real
  | EnableEditing bool

fun dispatch :: "Env \<Rightarrow> event \<Rightarrow> World \<Rightarrow> World result" where
  "dispatch env (PointsUpdate p) w = onPointsUpdate env w p"
| "dispatch env (PointsAdd ps) w = onPointsAdd env w ps"
| "dispatch env (PointsRemove ps) w = onPointsRemove env w ps"
| "dispatch env PointsRemoveAll w = Returned (onPointsRemoveAll w)"
| "dispatch env (PointsDrag p) w = onPointsDrag env w p"
| "dispatch env (HandleClick p) w = onPointHandleClick env w p"
| "dispatch env (HandleDblClick p) w = onPointHandleDblClick env w p"
| "dispatch env (HandleMouseEnter p) w = onPointHandleMouseEnter env w p"
| "dispatch env (HandleMouseLeave p) w = onPointHandleMouseLeave env w p"
| "dispatch env (HandleContextMenu p) w = onPointHandleContextMenu env w p"
| "dispatch env (HandleDragStart p) w = onPointHandleDragStart env w p"
| "dispatch env (HandleDragMove p) w = onPointHandleDragMove env w p"
| "dispatch env (HandleDragEnd p) w = onPointHandleDragEnd env w p"
| "dispatch env (HandleDragBound x y) w =
     (case pointHandleDragBoundFunc env w (x, y) of
        Threw err w' \<Rightarrow> Threw err w'
      | Returned bound \<Rightarrow> Returned w)"
| "dispatch env (UpdatePoints startTime endTime) w = updatePoints env w startTime endTime"
| "dispatch env (EnableEditing enable) w = Returned (enableEditing w enable)"

text \<open>Notifications are handled one after the other; an exception ends the run.\<close>

fun run :: "Env \<Rightarrow> event list \<Rightarrow> World \<Rightarrow> World result" where
  "run env [] w = Returned w"
| "run env (ev # evs) w =
     (case dispatch env ev w of Threw err w' \<Rightarrow> Threw err w' | Returned w' \<Rightarrow> run env evs w')"

text \<open>
  The layer outlives an exception: the state after a sequence of notifications, each
  handled in the state the previous one left, whether it returned or threw.
\<close>

fun after :: "Env \<Rightarrow> event list \<Rightarrow> World \<Rightarrow> World" where
  "after env [] w = w"
| "after env (ev # evs) w = after env evs (state_of (dispatch env ev w))"

fun drag_boundary :: "event \<Rightarrow> bool" where
  "drag_boundary (HandleDragStart p) = True"
| "drag_boundary (HandleDragEnd p) = True"
| "drag_boundary ev = False"

text \<open>The point objects a notification or handler call names.\<close>

fun event_points :: "event \<Rightarrow> point_ref list" where
  "event_points (PointsUpdate p) = [p]"
| "event_points (PointsAdd ps) = ps"
| "event_points (PointsRemove ps) = ps"
| "event_points PointsRemoveAll = []"
| "event_points (PointsDrag p) = [p]"
| "event_points (HandleClick p) = [p]"
| "event_points (HandleDblClick p) = [p]"
| "event_points (HandleMouseEnter p) = [p]"
| "event_points (HandleMouseLeave p) = [p]"
| "event_points (HandleContextMenu p) = [p]"
| "event_points (HandleDragStart p) = [p]"
| "event_points (HandleDragMove p) = [p]"
| "event_points (HandleDragEnd p) = [p]"
| "event_points (HandleDragBound x y) = []"
| "event_points (UpdatePoints startTime endTime) = []"
| "event_points (EnableEditing enable) = []"

section \<open>Consistency of the registry with the data store\<close>

text \<open>
  The store content is the list of point objects the store holds. The registry is
  keyed by point id: every marker held as an own property sits under the id of its
  own point.
\<close>

definition registry_keyed :: "World \<Rightarrow> bool" where
  "registry_keyed w =
     list_all (\<lambda>(k, pm). point_id (heap w (getPoint pm)) = k) (pointMarkers w)"

text \<open>Every registered marker belongs to a point of the store.\<close>

definition markers_in_store :: "World \<Rightarrow> point_ref list \<Rightarrow> bool" where
  "markers_in_store w store =
     list_all (\<lambda>(k, pm). getPoint pm \<in> set store) (pointMarkers w)"

text \<open>Point ids are unique within the store.\<close>

definition unique_ids :: "(point_ref \<Rightarrow> Point) \<Rightarrow> point_ref list \<Rightarrow> bool" where
  "unique_ids h store =
     list_all (\<lambda>p. list_all (\<lambda>q. point_id (h p) = point_id (h q) \<longrightarrow> p = q) store) store"

text \<open>The store's \<open>find\<close> returns exactly the stored points that are visible.\<close>

definition find_exact ::
  "Env \<Rightarrow> (point_ref \<Rightarrow> Point) \<Rightarrow> point_ref list \<Rightarrow> real \<Rightarrow> real \<Rightarrow> bool" where
  "find_exact env h store startTime endTime =
     (set (points_find env h startTime endTime) =
      set (filter (\<lambda>p. isVisible env (h p) startTime endTime) store))"

definition consistent :: "Env \<Rightarrow> World \<Rightarrow> point_ref list \<Rightarrow> real \<Rightarrow> real \<Rightarrow> bool" where
  "consistent env w store startTime endTime =
     (find_exact env (heap w) store startTime endTime \<and> unique_ids (heap w) store \<and>
      registry_keyed w \<and> markers_in_store w store)"

text \<open>Every marker of the registry, with its key, satisfies a property of its point.\<close>

definition registry_all :: "(string \<Rightarrow> point_ref \<Rightarrow> bool) \<Rightarrow> World \<Rightarrow> bool" where
  "registry_all R w = list_all (\<lambda>(k, pm). R k (getPoint pm)) (pointMarkers w)"

text \<open>The position \<open>_updatePoint\<close> gives to the marker of a point.\<close>

definition markerX :: "Env \<Rightarrow> Point \<Rightarrow> real" where
  "markerX env pt = timeToPixels (view env) (time pt) - getFrameOffset (view env)"

text \<open>
  A point is positioned when the lookup of its id gives a marker whose horizontal
  position is the one \<open>_updatePoint\<close> computes.
\<close>

definition positioned :: "Env \<Rightarrow> World \<Rightarrow> point_ref \<Rightarrow> bool" where
  "positioned env w p =
     (case lookup env w (point_id (heap w p)) of
        Held t pm \<Rightarrow> getX pm = markerX env (heap w p)
      | _ \<Rightarrow> False)"

text \<open>
  Ids are plain when none of them names a member of \<open>Object.prototype\<close>.
\<close>

definition plain_ids :: "(point_ref \<Rightarrow> Point) \<Rightarrow> point_ref list \<Rightarrow> bool" where
  "plain_ids h ps = list_all (\<lambda>p. point_id (h p) \<notin> set objectPrototypeNames) ps"

section \<open>A small scene\<close>

text \<open>
  Three points at 1 s, 5 s and 9 s, a fourth one at 7 s whose id is \<open>constructor\<close>
  and a fifth one at 3 s whose id is \<open>__proto__\<close>; ten pixels per second; a
  half-open visibility rule; a view 600 pixels wide.
\<close>

definition scene_heap :: "point_ref \<Rightarrow> Point" where
  "scene_heap r =
     (if r = 0 then \<lparr>point_id = ''a'', time = 1, editable = True, color = None\<rparr>
      else if r = 1 then \<lparr>point_id = ''b'', time = 5, editable = False, color = Some ''red''\<rparr>
      else if r = 2 then \<lparr>point_id = ''c'', time = 9, editable = True, color = Some []\<rparr>
      else if r = 3
      then \<lparr>point_id = ''constructor'', time = 7, editable = True, color = None\<rparr>
      else \<lparr>point_id = ''__proto__'', time = 3, editable = True, color = None\<rparr>)"

definition scene_store :: "point_ref list" where
  "scene_store = [0, 1, 2]"

definition scene_visible :: "Point \<Rightarrow> real \<Rightarrow> real \<Rightarrow> bool" where
  "scene_visible pt startTime endTime = (startTime \<le> time pt \<and> time pt < endTime)"

definition scene_env :: "real \<Rightarrow> real \<Rightarrow> real \<Rightarrow> Env" where
  "scene_env startTime endTime offset =
     \<lparr>options = \<lparr>pointMarkerColor = Some ''blue'', fontFamily = None,
                  fontSize = Some 12, fontStyle = Some ''bold''\<rparr>,
      points_find = (\<lambda>h s e. filter (\<lambda>p. scene_visible (h p) s e) scene_store),
      view = \<lparr>getStartTime = startTime, getEndTime = endTime, getFrameOffset = offset,
               getWidth_view = 600, getName = ''zoomview'', timeToPixels = (\<lambda>t. t * 10),
               pixelOffsetToTime = (\<lambda>x. x / 10)\<rparr>,
      isVisible = scene_visible,
      groupWidth = 4,
      markerAbsoluteY = (\<lambda>u. 0),
      markerProperty = (\<lambda>pm k. NoProperty)\<rparr>"

text \<open>
  The same environment with every style option set to a falsy value: the empty
  string for the font family and style, zero for the font size.
\<close>

definition scene_env_blank :: Env where
  "scene_env_blank =
     (scene_env 0 6 0)\<lparr>options :=
        \<lparr>pointMarkerColor = Some ''blue'', fontFamily = Some [],
         fontSize = Some 0, fontStyle = Some []\<rparr>\<rparr>"

text \<open>The store that also holds the point whose id is \<open>constructor\<close>.\<close>

definition scene_store_ctor :: "point_ref list" where
  "scene_store_ctor = [3, 0, 1, 2]"

definition scene_env_ctor :: "real \<Rightarrow> Env" where
  "scene_env_ctor offset =
     (scene_env 0 6 offset)\<lparr>points_find :=
        (\<lambda>h s e. filter (\<lambda>p. scene_visible (h p) s e) scene_store_ctor)\<rparr>"

text \<open>The store that holds the point whose id is \<open>__proto__\<close> instead.\<close>

definition scene_store_proto :: "point_ref list" where
  "scene_store_proto = [4, 0, 1, 2]"

definition scene_env_proto :: Env where
  "scene_env_proto =
     (scene_env 0 6 0)\<lparr>points_find :=
        (\<lambda>h s e. filter (\<lambda>p. scene_visible (h p) s e) scene_store_proto)\<rparr>"

definition scene_empty :: World where
  "scene_empty =
     \<lparr>allowEditing = True, pointMarkers = [], pointMarkersProto = None, layer = [],
      dragPointMarker = Undefined,
      heap = scene_heap, constructed = 0, destroyed = [], emitted = []\<rparr>"

text \<open>The markers as the layer builds them in this scene.\<close>

definition scene_marker :: "nat \<Rightarrow> point_ref \<Rightarrow> real \<Rightarrow> PointMarker" where
  "scene_marker n p v =
     \<lparr>uid = n, getPoint = p, draggable = editable (scene_heap p),
      marker = \<lparr>opt_point = p, opt_draggable = editable (scene_heap p),
                 opt_color = (if p = 1 then Some ''red'' else Some ''blue''),
                 opt_fontFamily = ''sans-serif'', opt_fontSize = 12,
                 opt_fontStyle = ''bold'', opt_view = ''zoomview''\<rparr>,
      getX = v, getWidth = 4, timeLabel = None\<rparr>"

text \<open>
  The scene after the three points have been added while the view shows \<open>[0, 6)\<close> at
  frame offset 0.
\<close>

definition scene_shown :: World where
  "scene_shown =
     \<lparr>allowEditing = True,
      pointMarkers = [(''a'', scene_marker 0 0 10), (''b'', scene_marker 1 1 50)],
      pointMarkersProto = None,
      layer = [0, 1], dragPointMarker = Undefined,
      heap = scene_heap, constructed = 2, destroyed = [], emitted = []\<rparr>"

text \<open>
  The scene after the points of the store that holds \<open>__proto__\<close> have been added
  while the view shows \<open>[0, 6)\<close>: the marker of that point has become the prototype
  of the registry object.
\<close>

definition scene_proto_shown :: World where
  "scene_proto_shown =
     \<lparr>allowEditing = True,
      pointMarkers = [(''a'', scene_marker 1 0 10), (''b'', scene_marker 2 1 50)],
      pointMarkersProto = Some (scene_marker 0 4 30),
      layer = [0, 1, 2], dragPointMarker = Undefined,
      heap = scene_heap, constructed = 3, destroyed = [], emitted = []\<rparr>"

section \<open>Lookup, assignment and mutation\<close>

lemma proto_name_inherited: "''__proto__'' \<in> set objectPrototypeNames"
  by (simp add: objectPrototypeNames_def)

lemma lookup_own:
  "map_of (pointMarkers w) k = Some pm \<Longrightarrow> lookup env w k = Held (OwnKey k) pm"
  by (simp add: lookup_def)

lemma lookup_Held:
  "lookup env w k = Held t pm \<Longrightarrow>
     (t = OwnKey k \<and> map_of (pointMarkers w) k = Some pm) \<or>
     (t = Proto \<and> k = ''__proto__'' \<and> map_of (pointMarkers w) k = None \<and>
      pointMarkersProto w = Some pm)"
  by (auto simp: lookup_def split: option.splits if_splits member.splits)

lemma lookup_proto_name_truthy: "truthy (lookup env w ''__proto__'')"
  by (simp add: lookup_def proto_name_inherited split: option.splits)

lemma falsy_not_proto_name: "\<not> truthy (lookup env w k) \<Longrightarrow> k \<noteq> ''__proto__''"
  using lookup_proto_name_truthy by blast

lemma lookup_plain:
  "pointMarkersProto w = None \<Longrightarrow> k \<notin> set objectPrototypeNames \<Longrightarrow>
   lookup env w k = (case map_of (pointMarkers w) k of None \<Rightarrow> Absent | Some pm \<Rightarrow> Held (OwnKey k) pm)"
  by (simp add: lookup_def split: option.splits)

lemma lookup_inherited:
  "pointMarkersProto w = None \<Longrightarrow> k \<in> set objectPrototypeNames \<Longrightarrow>
   map_of (pointMarkers w) k = None \<Longrightarrow> lookup env w k = Inherited True"
  by (simp add: lookup_def)

lemma lookup_cong:
  "pointMarkers w' = pointMarkers w \<Longrightarrow> pointMarkersProto w' = pointMarkersProto w \<Longrightarrow>
   lookup env w' k = lookup env w k"
  by (simp add: lookup_def cong: option.case_cong)

lemma modifyMarker_frame:
  "heap (modifyMarker t f w) = heap w"
  "destroyed (modifyMarker t f w) = destroyed w"
  "dragPointMarker (modifyMarker t f w) = dragPointMarker w"
  "emitted (modifyMarker t f w) = emitted w"
  "allowEditing (modifyMarker t f w) = allowEditing w"
  "constructed (modifyMarker t f w) = constructed w"
  "layer (modifyMarker t f w) = layer w"
  by (simp_all add: modifyMarker_def split: target.splits option.splits)

lemma modifyMarker_own:
  "map_of (pointMarkers (modifyMarker (OwnKey k) f w)) =
     (\<lambda>k'. if k' = k then map_option f (map_of (pointMarkers w) k)
            else map_of (pointMarkers w) k')"
  "pointMarkersProto (modifyMarker (OwnKey k) f w) = pointMarkersProto w"
  by (auto simp: modifyMarker_def update_conv' fun_eq_iff split: option.splits)

lemma modifyMarker_proto:
  "pointMarkers (modifyMarker Proto f w) = pointMarkers w"
  "pointMarkersProto (modifyMarker Proto f w) = map_option f (pointMarkersProto w)"
  by (simp_all add: modifyMarker_def)

lemma modifyMarker_lookup_same:
  assumes "lookup env w k = Held t pm"
  shows "lookup env (modifyMarker t f w) k = Held t (f pm)"
  using lookup_Held[OF assms]
  by (auto simp: lookup_def modifyMarker_own modifyMarker_proto)

lemma modifyMarker_lookup_other:
  assumes "lookup env w k = Held t pm" "lookup env w k' = Held t' pm'" "k' \<noteq> k"
  shows "lookup env (modifyMarker t f w) k' = Held t' pm'"
  using lookup_Held[OF assms(1)] lookup_Held[OF assms(2)] assms(3)
  by (auto simp: lookup_def modifyMarker_own modifyMarker_proto)

lemma modifyMarker_id:
  assumes "lookup env w k = Held t pm" "f pm = pm"
  shows "modifyMarker t f w = w"
proof -
  from lookup_Held[OF assms(1)] show ?thesis
  proof (elim disjE conjE)
    assume t: "t = OwnKey k" and m: "map_of (pointMarkers w) k = Some pm"
    have "AList.update k (f pm) (pointMarkers w) = pointMarkers w"
      by (rule update_triv) (simp add: m assms(2))
    then show ?thesis using t m by (simp add: modifyMarker_def)
  next
    assume "t = Proto" "pointMarkersProto w = Some pm"
    then show ?thesis using assms(2) by (simp add: modifyMarker_def)
  qed
qed

lemma list_all_update:
  "list_all P al \<Longrightarrow> P (k, v) \<Longrightarrow> list_all P (AList.update k v al)"
  by (induction al) auto

lemma list_all_delete:
  "list_all P al \<Longrightarrow> list_all P (AList.delete k al)"
  by (simp add: AList.delete_eq list_all_iff)

lemma list_all_map_of:
  "list_all P al \<Longrightarrow> map_of al k = Some v \<Longrightarrow> P (k, v)"
  by (auto simp: list_all_iff dest: map_of_SomeD)

lemma modifyMarker_list_all:
  assumes "list_all (\<lambda>(k, pm). R k (getPoint pm)) (pointMarkers w)"
    and "\<And>pm. getPoint (f pm) = getPoint pm"
  shows "list_all (\<lambda>(k, pm). R k (getPoint pm)) (pointMarkers (modifyMarker t f w))"
proof (cases t)
  case (OwnKey k)
  have "list_all (\<lambda>(k, pm). R k (getPoint pm)) (AList.update k (f pm) (pointMarkers w))"
    if "map_of (pointMarkers w) k = Some pm" for pm
  proof (rule list_all_update[OF assms(1)])
    have "R k (getPoint pm)" using list_all_map_of[OF assms(1) that] by simp
    then show "case (k, f pm) of (k, pm) \<Rightarrow> R k (getPoint pm)" by (simp add: assms(2))
  qed
  then show ?thesis using OwnKey assms(1) by (simp add: modifyMarker_def split: option.splits)
next
  case Proto
  then show ?thesis using assms(1) by (simp add: modifyMarker_def)
qed

section \<open>Frame and registry lemmas\<close>

lemma createPointMarker_frame:
  "heap (snd (createPointMarker env w p)) = heap w"
  "pointMarkers (snd (createPointMarker env w p)) = pointMarkers w"
  "pointMarkersProto (snd (createPointMarker env w p)) = pointMarkersProto w"
  "layer (snd (createPointMarker env w p)) = layer w"
  "destroyed (snd (createPointMarker env w p)) = destroyed w"
  "dragPointMarker (snd (createPointMarker env w p)) = dragPointMarker w"
  "emitted (snd (createPointMarker env w p)) = emitted w"
  "allowEditing (snd (createPointMarker env w p)) = allowEditing w"
  "constructed (snd (createPointMarker env w p)) = Suc (constructed w)"
  by (simp_all add: createPointMarker_def Let_def)

lemma createPointMarker_fields:
  "getPoint (fst (createPointMarker env w p)) = p"
  "uid (fst (createPointMarker env w p)) = constructed w"
  by (simp_all add: createPointMarker_def Let_def)

lemma assignMarker_frame:
  "heap (assignMarker k pm w) = heap w"
  "destroyed (assignMarker k pm w) = destroyed w"
  "dragPointMarker (assignMarker k pm w) = dragPointMarker w"
  "emitted (assignMarker k pm w) = emitted w"
  "allowEditing (assignMarker k pm w) = allowEditing w"
  "constructed (assignMarker k pm w) = constructed w"
  "layer (assignMarker k pm w) = layer w"
  by (simp_all add: assignMarker_def)

lemma addPointMarker_frame:
  "heap (snd (addPointMarker env w p)) = heap w"
  "destroyed (snd (addPointMarker env w p)) = destroyed w"
  "dragPointMarker (snd (addPointMarker env w p)) = dragPointMarker w"
  "emitted (snd (addPointMarker env w p)) = emitted w"
  "allowEditing (snd (addPointMarker env w p)) = allowEditing w"
  "constructed (snd (addPointMarker env w p)) = Suc (constructed w)"
  "layer (snd (addPointMarker env w p)) = layer w @ [constructed w]"
  by (simp_all add: addPointMarker_def addToLayer_def split_beta Let_def createPointMarker_frame
      createPointMarker_fields assignMarker_frame)

lemma addPointMarker_registry:
  "pointMarkers (snd (addPointMarker env w p)) =
     (if point_id (heap w p) = ''__proto__'' then pointMarkers w
      else AList.update (point_id (heap w p)) (fst (createPointMarker env w p)) (pointMarkers w))"
  "pointMarkersProto (snd (addPointMarker env w p)) =
     (if point_id (heap w p) = ''__proto__'' then Some (fst (createPointMarker env w p))
      else pointMarkersProto w)"
  "fst (addPointMarker env w p) = fst (createPointMarker env w p)"
  by (simp_all add: addPointMarker_def addToLayer_def split_beta Let_def createPointMarker_frame
      assignMarker_def)

lemma addPointMarker_lookup:
  "point_id (heap w p) \<noteq> ''__proto__'' \<Longrightarrow>
   lookup env (snd (addPointMarker env w p)) (point_id (heap w p)) =
     Held (OwnKey (point_id (heap w p))) (fst (createPointMarker env w p))"
  by (simp add: lookup_def addPointMarker_registry update_conv')

lemma addPointMarker_lookup_other:
  assumes "lookup env w k' = Held t' pm'" "k' \<noteq> point_id (heap w p)"
    "point_id (heap w p) \<noteq> ''__proto__''"
  shows "lookup env (snd (addPointMarker env w p)) k' = Held t' pm'"
  using lookup_Held[OF assms(1)] assms(2,3)
  by (auto simp: lookup_def addPointMarker_registry update_conv')

lemma setX_frame:
  "heap (setX t v w) = heap w"
  "destroyed (setX t v w) = destroyed w"
  "dragPointMarker (setX t v w) = dragPointMarker w"
  "emitted (setX t v w) = emitted w"
  "allowEditing (setX t v w) = allowEditing w"
  "constructed (setX t v w) = constructed w"
  "layer (setX t v w) = layer w"
  by (simp_all add: setX_def modifyMarker_frame)

lemma timeUpdated_frame:
  "heap (timeUpdated t tm w) = heap w"
  "destroyed (timeUpdated t tm w) = destroyed w"
  "dragPointMarker (timeUpdated t tm w) = dragPointMarker w"
  "emitted (timeUpdated t tm w) = emitted w"
  "allowEditing (timeUpdated t tm w) = allowEditing w"
  "constructed (timeUpdated t tm w) = constructed w"
  "layer (timeUpdated t tm w) = layer w"
  by (simp_all add: timeUpdated_def modifyMarker_frame)

text \<open>The three ways \<open>_updatePoint\<close> can go.\<close>

lemma updatePoint_held:
  "lookup env w (point_id (heap w p)) = Held t pm \<Longrightarrow>
   updatePoint env w p = Returned (setX t (markerX env (heap w p)) w)"
  by (simp add: updatePoint_def findOrAddPointMarker_def Let_def markerX_def)

lemma updatePoint_foreign:
  "lookup env w (point_id (heap w p)) = Inherited True \<Longrightarrow>
   updatePoint env w p = Threw TypeError w"
  by (simp add: updatePoint_def findOrAddPointMarker_def Let_def)

lemma updatePoint_new:
  "\<not> truthy (lookup env w (point_id (heap w p))) \<Longrightarrow>
   updatePoint env w p =
     Returned (setX (OwnKey (point_id (heap w p))) (markerX env (heap w p))
                 (snd (addPointMarker env w p)))"
  using falsy_not_proto_name[of env w "point_id (heap w p)"]
  by (simp add: updatePoint_def findOrAddPointMarker_def Let_def split_beta markerX_def
      addPointMarker_frame target_of_key_def)

lemma slot_cases:
  obtains (held) t pm where "s = Held t pm" | (foreign) "s = Inherited True" | (falsy) "\<not> truthy s"
  by (cases s) auto

lemma updatePoint_heap: "heap (state_of (updatePoint env w p)) = heap w"
  by (cases "lookup env w (point_id (heap w p))" rule: slot_cases)
     (simp_all add: updatePoint_held updatePoint_foreign updatePoint_new setX_frame
       addPointMarker_frame)

lemma updatePoint_threw:
  "updatePoint env w p = Threw err w' \<Longrightarrow>
   w' = w \<and> lookup env w (point_id (heap w p)) = Inherited True"
  by (cases "lookup env w (point_id (heap w p))" rule: slot_cases)
     (simp_all add: updatePoint_held updatePoint_foreign updatePoint_new)

lemma updatePoint_list_all:
  assumes "list_all (\<lambda>(k, pm). R k (getPoint pm)) (pointMarkers w)"
    and "R (point_id (heap w p)) p"
  shows "list_all (\<lambda>(k, pm). R k (getPoint pm)) (pointMarkers (state_of (updatePoint env w p)))"
proof (cases "lookup env w (point_id (heap w p))" rule: slot_cases)
  case (held t pm)
  then show ?thesis using assms(1)
    by (simp add: updatePoint_held setX_def modifyMarker_list_all)
next
  case foreign
  then show ?thesis using assms(1) by (simp add: updatePoint_foreign)
next
  case falsy
  have "list_all (\<lambda>(k, pm). R k (getPoint pm)) (pointMarkers (snd (addPointMarker env w p)))"
    using assms by (simp add: addPointMarker_registry list_all_update createPointMarker_fields)
  then show ?thesis using falsy
    by (simp add: updatePoint_new setX_def modifyMarker_list_all)
qed

lemma updatePoint_registry_keyed:
  "registry_keyed w \<Longrightarrow> registry_keyed (state_of (updatePoint env w p))"
  unfolding registry_keyed_def updatePoint_heap
  using updatePoint_list_all[where R = "\<lambda>k r. point_id (heap w r) = k"] by simp

lemma updatePoint_markers_in_store:
  "markers_in_store w store \<Longrightarrow> p \<in> set store \<Longrightarrow>
   markers_in_store (state_of (updatePoint env w p)) store"
  unfolding markers_in_store_def
  using updatePoint_list_all[where R = "\<lambda>k r. r \<in> set store"] by simp

section \<open>Removal and the synchronisation loops\<close>

lemma destroy_frame:
  "heap (destroy pm w) = heap w"
  "pointMarkers (destroy pm w) = pointMarkers w"
  "pointMarkersProto (destroy pm w) = pointMarkersProto w"
  "constructed (destroy pm w) = constructed w"
  "dragPointMarker (destroy pm w) = dragPointMarker w"
  "emitted (destroy pm w) = emitted w"
  "allowEditing (destroy pm w) = allowEditing w"
  "destroyed (destroy pm w) = destroyed w @ [uid pm]"
  "layer (destroy pm w) = removeAll (uid pm) (layer w)"
  by (simp_all add: destroy_def)

text \<open>The three ways \<open>_removePoint\<close> can go.\<close>

lemma removePoint_held:
  "lookup env w (point_id (heap w p)) = Held t pm \<Longrightarrow>
   removePoint env w p =
     Returned ((destroy pm w)\<lparr>pointMarkers := AList.delete (point_id (heap w p)) (pointMarkers w)\<rparr>)"
  by (simp add: removePoint_def Let_def destroy_frame)

lemma removePoint_foreign:
  "lookup env w (point_id (heap w p)) = Inherited True \<Longrightarrow>
   removePoint env w p = Threw TypeError w"
  by (simp add: removePoint_def Let_def)

lemma removePoint_falsy:
  "\<not> truthy (lookup env w (point_id (heap w p))) \<Longrightarrow> removePoint env w p = Returned w"
  by (simp add: removePoint_def Let_def)

lemma lookup_not_held_own:
  "lookup env w k = Inherited b \<or> lookup env w k = Absent \<Longrightarrow> map_of (pointMarkers w) k = None"
  by (auto simp: lookup_def split: option.splits)

lemma removePoint_frame:
  "heap (state_of (removePoint env w p)) = heap w"
  "constructed (state_of (removePoint env w p)) = constructed w"
  "dragPointMarker (state_of (removePoint env w p)) = dragPointMarker w"
  "emitted (state_of (removePoint env w p)) = emitted w"
  "allowEditing (state_of (removePoint env w p)) = allowEditing w"
  "pointMarkersProto (state_of (removePoint env w p)) = pointMarkersProto w"
  by (cases "lookup env w (point_id (heap w p))" rule: slot_cases;
      simp add: removePoint_held removePoint_foreign removePoint_falsy destroy_frame)+

lemma removePoint_registry:
  "pointMarkers (state_of (removePoint env w p)) =
     AList.delete (point_id (heap w p)) (pointMarkers w)"
proof (cases "lookup env w (point_id (heap w p))" rule: slot_cases)
  case (held t pm)
  then show ?thesis by (simp add: removePoint_held)
next
  case foreign
  then have "map_of (pointMarkers w) (point_id (heap w p)) = None"
    using lookup_not_held_own by blast
  then show ?thesis using foreign by (simp add: removePoint_foreign map_of_eq_None_iff)
next
  case falsy
  then have "map_of (pointMarkers w) (point_id (heap w p)) = None"
    by (cases "lookup env w (point_id (heap w p))") (auto dest: lookup_Held intro: lookup_not_held_own simp: lookup_own)
  then show ?thesis using falsy by (simp add: removePoint_falsy map_of_eq_None_iff)
qed

lemma removePoint_registry_keyed:
  "registry_keyed w \<Longrightarrow> registry_keyed (state_of (removePoint env w p))"
  by (simp add: registry_keyed_def removePoint_frame removePoint_registry list_all_delete)

lemma removePoint_own:
  "map_of (pointMarkers w) (point_id (heap w p)) = Some pm \<Longrightarrow>
   removePoint env w p =
     Returned ((destroy pm w)\<lparr>pointMarkers := AList.delete (point_id (heap w p)) (pointMarkers w)\<rparr>)"
  by (simp add: removePoint_held[OF lookup_own])

lemma removeInvisibleLoop_registry:
  "registry_keyed w \<Longrightarrow>
   \<exists>w' c'. removeInvisibleLoop env s e ks w c = Returned (w', c')
     \<and> heap w' = heap w \<and> pointMarkersProto w' = pointMarkersProto w
     \<and> (\<forall>k. map_of (pointMarkers w') k =
          (case map_of (pointMarkers w) k of
             None \<Rightarrow> None
           | Some pm \<Rightarrow> if k \<in> set ks \<and> \<not> isVisible env (heap w (getPoint pm)) s e
                        then None else Some pm))"
proof (induction ks arbitrary: w c)
  case Nil
  then show ?case by (simp split: option.splits)
next
  case (Cons k0 ks)
  show ?case
  proof (cases "map_of (pointMarkers w) k0")
    case None
    from Cons.IH[OF Cons.prems, of c] obtain w' c' where
      "removeInvisibleLoop env s e ks w c = Returned (w', c')" "heap w' = heap w"
      "pointMarkersProto w' = pointMarkersProto w"
      "\<forall>k. map_of (pointMarkers w') k =
          (case map_of (pointMarkers w) k of None \<Rightarrow> None
           | Some pm \<Rightarrow> if k \<in> set ks \<and> \<not> isVisible env (heap w (getPoint pm)) s e
                        then None else Some pm)"
      by blast
    then show ?thesis using None by (auto split: option.splits)
  next
    case (Some pm0)
    have key: "point_id (heap w (getPoint pm0)) = k0"
      using list_all_map_of[OF Cons.prems[unfolded registry_keyed_def] Some] by simp
    show ?thesis
    proof (cases "isVisible env (heap w (getPoint pm0)) s e")
      case True
      from Cons.IH[OF Cons.prems, of c] obtain w' c' where
        "removeInvisibleLoop env s e ks w c = Returned (w', c')" "heap w' = heap w"
        "pointMarkersProto w' = pointMarkersProto w"
        "\<forall>k. map_of (pointMarkers w') k =
            (case map_of (pointMarkers w) k of None \<Rightarrow> None
             | Some pm \<Rightarrow> if k \<in> set ks \<and> \<not> isVisible env (heap w (getPoint pm)) s e
                          then None else Some pm)"
        by blast
      then show ?thesis using Some True by (auto split: option.splits)
    next
      case False
      let ?w1 = "(destroy pm0 w)\<lparr>pointMarkers := AList.delete k0 (pointMarkers w)\<rparr>"
      have rp: "removePoint env w (getPoint pm0) = Returned ?w1"
        using removePoint_own[of w "getPoint pm0" pm0 env] Some key by simp
      have rk1: "registry_keyed ?w1"
        using removePoint_registry_keyed[OF Cons.prems, of env "getPoint pm0"] rp by simp
      have h1: "heap ?w1 = heap w" "pointMarkersProto ?w1 = pointMarkersProto w"
        by (simp_all add: destroy_frame)
      have reg: "map_of (pointMarkers ?w1) = (map_of (pointMarkers w))(k0 := None)"
        by (simp add: delete_conv')
      from Cons.IH[OF rk1, of "c + 1"] obtain w' c' where
        l: "removeInvisibleLoop env s e ks ?w1 (c + 1) = Returned (w', c')" and
        h: "heap w' = heap ?w1" "pointMarkersProto w' = pointMarkersProto ?w1" and
        m: "\<forall>k. map_of (pointMarkers w') k =
            (case map_of (pointMarkers ?w1) k of None \<Rightarrow> None
             | Some pm \<Rightarrow> if k \<in> set ks \<and> \<not> isVisible env (heap ?w1 (getPoint pm)) s e
                          then None else Some pm)"
        by blast
      have "removeInvisibleLoop env s e (k0 # ks) w c = Returned (w', c')"
        using Some False rp l by simp
      moreover have "\<forall>k. map_of (pointMarkers w') k =
            (case map_of (pointMarkers w) k of None \<Rightarrow> None
             | Some pm \<Rightarrow> if k \<in> set (k0 # ks) \<and> \<not> isVisible env (heap w (getPoint pm)) s e
                          then None else Some pm)"
        using m Some False unfolding reg h1 by (auto split: option.splits)
      ultimately show ?thesis using h h1 by auto
    qed
  qed
qed

lemma removeInvisiblePoints_registry:
  assumes "registry_keyed w"
  shows "\<exists>w' c'. removeInvisiblePoints env w s e = Returned (w', c')
     \<and> heap w' = heap w \<and> pointMarkersProto w' = pointMarkersProto w
     \<and> (\<forall>k. map_of (pointMarkers w') k =
          (case map_of (pointMarkers w) k of
             None \<Rightarrow> None
           | Some pm \<Rightarrow> if isVisible env (heap w (getPoint pm)) s e then Some pm else None))"
proof -
  have in_keys: "map_of (pointMarkers w) k = Some pm \<Longrightarrow> k \<in> set (map fst (pointMarkers w))" for k pm
    by (auto dest: map_of_SomeD intro: rev_image_eqI)
  from removeInvisibleLoop_registry[OF assms, of env s e "map fst (pointMarkers w)" 0]
  obtain w' c' where l: "removeInvisibleLoop env s e (map fst (pointMarkers w)) w 0 = Returned (w', c')"
    and h: "heap w' = heap w" "pointMarkersProto w' = pointMarkersProto w"
    and m: "\<forall>k. map_of (pointMarkers w') k =
          (case map_of (pointMarkers w) k of None \<Rightarrow> None
           | Some pm \<Rightarrow> if k \<in> set (map fst (pointMarkers w)) \<and> \<not> isVisible env (heap w (getPoint pm)) s e
                        then None else Some pm)"
    by blast
  have "\<forall>k. map_of (pointMarkers w') k =
          (case map_of (pointMarkers w) k of None \<Rightarrow> None
           | Some pm \<Rightarrow> if isVisible env (heap w (getPoint pm)) s e then Some pm else None)"
    using m in_keys by (auto split: option.splits)
  then show ?thesis using l h by (auto simp: removeInvisiblePoints_def)
qed

lemma removeInvisibleLoop_idle:
  "(\<And>k pm. map_of (pointMarkers w) k = Some pm \<Longrightarrow> isVisible env (heap w (getPoint pm)) s e) \<Longrightarrow>
   removeInvisibleLoop env s e ks w c = Returned (w, c)"
  by (induction ks) (auto split: option.splits)

lemma updateEach_heap: "heap (state_of (updateEach env ps w)) = heap w"
proof (induction ps arbitrary: w)
  case Nil
  then show ?case by simp
next
  case (Cons p ps)
  show ?case
  proof (cases "updatePoint env w p")
    case (Returned w')
    then show ?thesis using Cons.IH[of w'] updatePoint_heap[of env w p] by simp
  next
    case (Threw err w')
    then show ?thesis using updatePoint_heap[of env w p] by simp
  qed
qed

lemma updateEach_registry_keyed:
  "registry_keyed w \<Longrightarrow> registry_keyed (state_of (updateEach env ps w))"
proof (induction ps arbitrary: w)
  case Nil
  then show ?case by simp
next
  case (Cons p ps)
  show ?case
  proof (cases "updatePoint env w p")
    case (Returned w')
    then show ?thesis
      using Cons.IH[of w'] updatePoint_registry_keyed[OF Cons.prems, of env p] by simp
  next
    case (Threw err w')
    then show ?thesis using updatePoint_registry_keyed[OF Cons.prems, of env p] by simp
  qed
qed

lemma updateEach_markers_in_store:
  "markers_in_store w store \<Longrightarrow> set ps \<subseteq> set store \<Longrightarrow>
   markers_in_store (state_of (updateEach env ps w)) store"
proof (induction ps arbitrary: w)
  case Nil
  then show ?case by simp
next
  case (Cons p ps)
  have p: "p \<in> set store" and ps: "set ps \<subseteq> set store" using Cons.prems(2) by auto
  show ?case
  proof (cases "updatePoint env w p")
    case (Returned w')
    then show ?thesis
      using Cons.IH[of w', OF _ ps] updatePoint_markers_in_store[OF Cons.prems(1) p, of env]
      by simp
  next
    case (Threw err w')
    then show ?thesis using updatePoint_markers_in_store[OF Cons.prems(1) p, of env] by simp
  qed
qed

section \<open>Synchronising a window\<close>

lemmas scene_defs = scene_env_def scene_empty_def scene_shown_def scene_marker_def scene_store_def
  scene_heap_def scene_visible_def

lemmas consistent_defs = consistent_def find_exact_def unique_ids_def registry_keyed_def
  markers_in_store_def

lemma image_filter_set: "{f p | p. p \<in> set xs \<and> P p} = set (map f (filter P xs))"
  by auto

lemma unique_idsD:
  "unique_ids h store \<Longrightarrow> p \<in> set store \<Longrightarrow> q \<in> set store \<Longrightarrow>
   point_id (h p) = point_id (h q) \<Longrightarrow> p = q"
  by (auto simp: unique_ids_def list_all_iff)

lemma find_exactD:
  "find_exact env h store s e \<Longrightarrow>
   p \<in> set (points_find env h s e) \<longleftrightarrow> p \<in> set store \<and> isVisible env (h p) s e"
  by (auto simp: find_exact_def)

lemma positionedD:
  "positioned env w p \<Longrightarrow>
   \<exists>t pm. lookup env w (point_id (heap w p)) = Held t pm \<and> getX pm = markerX env (heap w p)"
  by (auto simp: positioned_def split: slot.splits)

lemma updatePoint_idle:
  assumes "positioned env w p"
  shows "updatePoint env w p = Returned w"
proof -
  from positionedD[OF assms] obtain t pm where
    l: "lookup env w (point_id (heap w p)) = Held t pm" and x: "getX pm = markerX env (heap w p)"
    by blast
  have "modifyMarker t (\<lambda>pm. pm\<lparr>getX := markerX env (heap w p)\<rparr>) w = w"
    by (rule modifyMarker_id[OF l]) (simp add: x[symmetric])
  then show ?thesis by (simp add: updatePoint_held[OF l] setX_def)
qed

lemma updatePoint_positions:
  assumes "updatePoint env w p = Returned w'"
  shows "positioned env w' p"
proof (cases "lookup env w (point_id (heap w p))" rule: slot_cases)
  case (held t pm)
  then have w': "w' = setX t (markerX env (heap w p)) w"
    using assms by (simp add: updatePoint_held)
  show ?thesis
    unfolding w' positioned_def
    by (simp add: setX_def modifyMarker_frame modifyMarker_lookup_same[OF held])
next
  case foreign
  then show ?thesis using assms by (simp add: updatePoint_foreign)
next
  case falsy
  let ?k = "point_id (heap w p)"
  let ?w1 = "snd (addPointMarker env w p)"
  have k: "?k \<noteq> ''__proto__''" by (rule falsy_not_proto_name[OF falsy])
  have w': "w' = setX (OwnKey ?k) (markerX env (heap w p)) ?w1"
    using assms falsy by (simp add: updatePoint_new)
  have l1: "lookup env ?w1 ?k = Held (OwnKey ?k) (fst (createPointMarker env w p))"
    by (rule addPointMarker_lookup[OF k])
  show ?thesis
    unfolding w' positioned_def
    by (simp add: setX_def modifyMarker_frame addPointMarker_frame modifyMarker_lookup_same[OF l1])
qed

lemma updatePoint_keeps_positioned:
  assumes "positioned env w p" "point_id (heap w q) \<noteq> point_id (heap w p)"
  shows "positioned env (state_of (updatePoint env w q)) p"
proof -
  from positionedD[OF assms(1)] obtain t pm where
    l: "lookup env w (point_id (heap w p)) = Held t pm" and x: "getX pm = markerX env (heap w p)"
    by blast
  have ne: "point_id (heap w p) \<noteq> point_id (heap w q)" using assms(2) by simp
  show ?thesis
  proof (cases "lookup env w (point_id (heap w q))" rule: slot_cases)
    case (held tq pmq)
    have "lookup env (modifyMarker tq f w) (point_id (heap w p)) = Held t pm" for f
      by (rule modifyMarker_lookup_other[OF held l ne])
    then show ?thesis using x
      by (simp add: updatePoint_held[OF held] positioned_def modifyMarker_frame setX_def)
  next
    case foreign
    then show ?thesis using assms(1) by (simp add: updatePoint_foreign)
  next
    case falsy
    let ?kq = "point_id (heap w q)"
    let ?w1 = "snd (addPointMarker env w q)"
    have kq: "?kq \<noteq> ''__proto__''" by (rule falsy_not_proto_name[OF falsy])
    have l1: "lookup env ?w1 (point_id (heap w p)) = Held t pm"
      by (rule addPointMarker_lookup_other[OF l ne kq])
    have lq: "lookup env ?w1 ?kq = Held (OwnKey ?kq) (fst (createPointMarker env w q))"
      by (rule addPointMarker_lookup[OF kq])
    have "lookup env (modifyMarker (OwnKey ?kq) f ?w1) (point_id (heap w p)) = Held t pm" for f
      by (rule modifyMarker_lookup_other[OF lq l1 ne])
    then show ?thesis using x falsy
      by (simp add: updatePoint_new positioned_def modifyMarker_frame addPointMarker_frame setX_def)
  qed
qed

text \<open>
  Running the first phase again from the state it ended in, returned or thrown, ends
  in the same way and in the same state.
\<close>

lemma updateEach_again:
  assumes "unique_ids (heap w) store"
  shows "set ps \<subseteq> set store \<Longrightarrow> D \<subseteq> set store \<Longrightarrow> (\<forall>p \<in> D. positioned env w p) \<Longrightarrow>
    updateEach env ps (state_of (updateEach env ps w)) = updateEach env ps w
    \<and> (\<forall>p \<in> D. positioned env (state_of (updateEach env ps w)) p)
    \<and> (\<forall>w'. updateEach env ps w = Returned w' \<longrightarrow> (\<forall>p \<in> set ps. positioned env w' p))"
  using assms
proof (induction ps arbitrary: w D)
  case Nil
  then show ?case by simp
next
  case (Cons q ps)
  have q: "q \<in> set store" and ps: "set ps \<subseteq> set store" using Cons.prems(1) by auto
  show ?case
  proof (cases "updatePoint env w q")
    case (Threw err w')
    then have "w' = w" using updatePoint_threw by blast
    then show ?thesis using Threw Cons.prems(3) by simp
  next
    case (Returned w')
    have hw': "heap w' = heap w" using updatePoint_heap[of env w q] Returned by simp
    have un': "unique_ids (heap w') store" using Cons.prems(4) by (simp add: hw')
    have pos': "\<forall>p \<in> insert q D. positioned env w' p"
    proof
      fix p assume p: "p \<in> insert q D"
      show "positioned env w' p"
      proof (cases "point_id (heap w q) = point_id (heap w p)")
        case True
        have "p \<in> set store" using p q Cons.prems(2) by auto
        then have "q = p" using unique_idsD[OF Cons.prems(4) q _ True] by simp
        then show ?thesis using updatePoint_positions[OF Returned] by simp
      next
        case False
        then have "p \<in> D" using p by auto
        then have "positioned env w p" using Cons.prems(3) by simp
        from updatePoint_keeps_positioned[OF this False] Returned show ?thesis by simp
      qed
    qed
    have D': "insert q D \<subseteq> set store" using q Cons.prems(2) by simp
    from Cons.IH[OF ps D' pos' un'] have
      again: "updateEach env ps (state_of (updateEach env ps w')) = updateEach env ps w'"
      and keep: "\<forall>p \<in> insert q D. positioned env (state_of (updateEach env ps w')) p"
      and fin: "\<forall>w''. updateEach env ps w' = Returned w'' \<longrightarrow> (\<forall>p \<in> set ps. positioned env w'' p)"
      by blast+
    have r: "updateEach env (q # ps) w = updateEach env ps w'" using Returned by simp
    have "positioned env (state_of (updateEach env ps w')) q" using keep by simp
    then have "updatePoint env (state_of (updateEach env ps w')) q = Returned (state_of (updateEach env ps w'))"
      by (rule updatePoint_idle)
    then have 1: "updateEach env (q # ps) (state_of (updateEach env (q # ps) w)) = updateEach env (q # ps) w"
      unfolding r using again by simp
    have 2: "\<forall>p \<in> D. positioned env (state_of (updateEach env (q # ps) w)) p"
      unfolding r using keep by simp
    have 3: "\<forall>w''. updateEach env (q # ps) w = Returned w'' \<longrightarrow>
               (\<forall>p \<in> set (q # ps). positioned env w'' p)"
      unfolding r using fin keep by auto
    show ?thesis using 1 2 3 by blast
  qed
qed

lemma updateEach_idle:
  "(\<And>p. p \<in> set ps \<Longrightarrow> positioned env w p) \<Longrightarrow> updateEach env ps w = Returned w"
  by (induction ps) (simp_all add: updatePoint_idle)

lemma updatePoints_threw:
  "updateEach env (points_find env (heap w) s e) w = Threw err w1 \<Longrightarrow>
   updatePoints env w s e = Threw err w1"
  by (simp add: updatePoints_def Let_def)

lemma updatePoints_returned:
  "updateEach env (points_find env (heap w) s e) w = Returned w1 \<Longrightarrow>
   removeInvisiblePoints env w1 s e = Returned (w2, c) \<Longrightarrow>
   updatePoints env w s e = Returned w2"
  by (simp add: updatePoints_def Let_def)

text \<open>
  What a synchronisation pass that reaches its second phase leaves behind: the own
  properties are the markers of the first phase whose points are visible, and every
  point the store returned is positioned.
\<close>

lemma updatePoints_second_phase:
  assumes c: "consistent env w store s e"
    and r1: "updateEach env (points_find env (heap w) s e) w = Returned w1"
  shows "\<exists>w2. updatePoints env w s e = Returned w2
     \<and> heap w2 = heap w \<and> pointMarkersProto w2 = pointMarkersProto w1
     \<and> (\<forall>k. map_of (pointMarkers w2) k =
          (case map_of (pointMarkers w1) k of
             None \<Rightarrow> None
           | Some pm \<Rightarrow> if isVisible env (heap w (getPoint pm)) s e then Some pm else None))
     \<and> (\<forall>k pm. map_of (pointMarkers w1) k = Some pm \<longrightarrow>
           getPoint pm \<in> set store \<and> point_id (heap w (getPoint pm)) = k)
     \<and> (\<forall>p \<in> set (points_find env (heap w) s e). positioned env w1 p \<and> positioned env w2 p)"
proof -
  let ?ps = "points_find env (heap w) s e"
  from c have fe: "find_exact env (heap w) store s e" and un: "unique_ids (heap w) store"
    and rk: "registry_keyed w" and ms: "markers_in_store w store"
    by (simp_all add: consistent_def)
  have sub: "set ?ps \<subseteq> set store" using find_exactD[OF fe] by auto
  have h1: "heap w1 = heap w" using updateEach_heap[of env ?ps w] r1 by simp
  have rk1: "registry_keyed w1" using updateEach_registry_keyed[OF rk, of env ?ps] r1 by simp
  have ms1: "markers_in_store w1 store"
    using updateEach_markers_in_store[OF ms sub, of env] r1 by simp
  have own1: "getPoint pm \<in> set store \<and> point_id (heap w (getPoint pm)) = k"
    if "map_of (pointMarkers w1) k = Some pm" for k pm
    using list_all_map_of[OF rk1[unfolded registry_keyed_def] that]
      list_all_map_of[OF ms1[unfolded markers_in_store_def] that] by (simp add: h1)
  have pos1: "positioned env w1 p" if "p \<in> set ?ps" for p
    using updateEach_again[OF un sub, of "{}" env] r1 that by simp
  from removeInvisiblePoints_registry[OF rk1, of env s e] obtain w2 c2 where
    r2: "removeInvisiblePoints env w1 s e = Returned (w2, c2)"
    and h2: "heap w2 = heap w1" and p2: "pointMarkersProto w2 = pointMarkersProto w1"
    and m2: "\<forall>k. map_of (pointMarkers w2) k =
          (case map_of (pointMarkers w1) k of None \<Rightarrow> None
           | Some pm \<Rightarrow> if isVisible env (heap w1 (getPoint pm)) s e then Some pm else None)"
    by blast
  have pos2: "positioned env w2 p" if p: "p \<in> set ?ps" for p
  proof -
    let ?k = "point_id (heap w p)"
    from positionedD[OF pos1[OF p]] obtain t pm where
      l: "lookup env w1 ?k = Held t pm" and x: "getX pm = markerX env (heap w p)"
      by (auto simp: h1)
    have pv: "p \<in> set store" "isVisible env (heap w p) s e" using p find_exactD[OF fe] by auto
    from lookup_Held[OF l] have "lookup env w2 ?k = Held t pm"
    proof (elim disjE conjE)
      assume t: "t = OwnKey ?k" and m: "map_of (pointMarkers w1) ?k = Some pm"
      from own1[OF m] have "getPoint pm = p"
        using unique_idsD[OF un _ pv(1)] by blast
      then have "map_of (pointMarkers w2) ?k = Some pm" using m2 m pv(2) by (simp add: h1)
      then show ?thesis using t by (simp add: lookup_own)
    next
      assume "t = Proto" "?k = ''__proto__''" "map_of (pointMarkers w1) ?k = None"
        "pointMarkersProto w1 = Some pm"
      then show ?thesis using m2 p2 by (simp add: lookup_def)
    qed
    then show ?thesis using x by (simp add: positioned_def h2 h1)
  qed
  show ?thesis
    using updatePoints_returned[OF r1 r2] h2 h1 p2 m2 own1 pos1 pos2
    by (intro exI[of _ w2]) (simp cong: option.case_cong)
qed

text \<open>
  C2. Idempotence: when the registry is consistent with the store, a second
  \<open>updatePoints\<close> with the same window and unchanged store, started in the state the
  first call left, ends as the first call ended and in the very same state: the
  registry is identical, no marker is constructed and none is destroyed. This covers
  a first call that returns and one that throws.
\<close>

theorem updatePoints_idempotent:
  assumes "consistent env w store startTime endTime"
  shows "updatePoints env (state_of (updatePoints env w startTime endTime)) startTime endTime =
           updatePoints env w startTime endTime
       \<and> pointMarkers (state_of (updatePoints env
              (state_of (updatePoints env w startTime endTime)) startTime endTime)) =
           pointMarkers (state_of (updatePoints env w startTime endTime))
       \<and> constructed (state_of (updatePoints env
              (state_of (updatePoints env w startTime endTime)) startTime endTime)) =
           constructed (state_of (updatePoints env w startTime endTime))
       \<and> destroyed (state_of (updatePoints env
              (state_of (updatePoints env w startTime endTime)) startTime endTime)) =
           destroyed (state_of (updatePoints env w startTime endTime))"
proof -
  let ?ps = "points_find env (heap w) startTime endTime"
  from assms have fe: "find_exact env (heap w) store startTime endTime"
    and un: "unique_ids (heap w) store"
    by (simp_all add: consistent_def)
  have sub: "set ?ps \<subseteq> set store" using find_exactD[OF fe] by auto
  have "updatePoints env (state_of (updatePoints env w startTime endTime)) startTime endTime =
           updatePoints env w startTime endTime"
  proof (cases "updateEach env ?ps w")
    case (Threw err w1)
    have h1: "heap w1 = heap w" using updateEach_heap[of env ?ps w] Threw by simp
    have "updateEach env ?ps w1 = Threw err w1"
      using updateEach_again[OF un sub, of "{}" env] Threw by simp
    then have "updatePoints env w1 startTime endTime = Threw err w1"
      by (intro updatePoints_threw) (simp add: h1)
    then show ?thesis by (simp add: updatePoints_threw[OF Threw])
  next
    case (Returned w1)
    from updatePoints_second_phase[OF assms Returned] obtain w2 where
      u: "updatePoints env w startTime endTime = Returned w2" and h2: "heap w2 = heap w"
      and m2: "\<forall>k. map_of (pointMarkers w2) k =
          (case map_of (pointMarkers w1) k of None \<Rightarrow> None
           | Some pm \<Rightarrow> if isVisible env (heap w (getPoint pm)) startTime endTime
                        then Some pm else None)"
      and pos2: "\<forall>p \<in> set ?ps. positioned env w2 p"
      by blast
    have 1: "updateEach env (points_find env (heap w2) startTime endTime) w2 = Returned w2"
      unfolding h2 by (rule updateEach_idle) (use pos2 in blast)
    have vis: "isVisible env (heap w2 (getPoint pm)) startTime endTime"
      if "map_of (pointMarkers w2) k = Some pm" for k pm
      using that m2 by (auto simp: h2 split: option.splits if_splits)
    have 2: "removeInvisiblePoints env w2 startTime endTime = Returned (w2, 0)"
      unfolding removeInvisiblePoints_def by (rule removeInvisibleLoop_idle) (rule vis)
    show ?thesis unfolding u by (simp add: updatePoints_returned[OF 1 2])
  qed
  then show ?thesis by simp
qed

theorem updatePoints_idempotent_witness:
  "consistent (scene_env 4 10 20) scene_shown scene_store 4 10 \<and>
   updatePoints (scene_env 4 10 20)
      (state_of (updatePoints (scene_env 4 10 20) scene_shown 4 10)) 4 10 =
     updatePoints (scene_env 4 10 20) scene_shown 4 10 \<and>
   constructed (state_of (updatePoints (scene_env 4 10 20)
      (state_of (updatePoints (scene_env 4 10 20) scene_shown 4 10)) 4 10)) =
     constructed (state_of (updatePoints (scene_env 4 10 20) scene_shown 4 10)) \<and>
   destroyed (state_of (updatePoints (scene_env 4 10 20)
      (state_of (updatePoints (scene_env 4 10 20) scene_shown 4 10)) 4 10)) =
     destroyed (state_of (updatePoints (scene_env 4 10 20) scene_shown 4 10))"
proof -
  have h: "consistent (scene_env 4 10 20) scene_shown scene_store 4 10"
    by (simp add: consistent_defs scene_defs)
  from updatePoints_idempotent[OF h] h show ?thesis by simp
qed

text \<open>
  Away from the inherited names: with the registry's prototype untouched and plain
  ids the pass returns, and whenever it returns with the prototype untouched the
  registry keys are the ids of the visible points and no marker is stale.
\<close>

lemma plain_idsD: "plain_ids h ps \<Longrightarrow> p \<in> set ps \<Longrightarrow> point_id (h p) \<notin> set objectPrototypeNames"
  by (auto simp: plain_ids_def list_all_iff)

lemma updatePoint_plain:
  assumes "pointMarkersProto w = None" "point_id (heap w p) \<notin> set objectPrototypeNames"
  shows "\<exists>w'. updatePoint env w p = Returned w' \<and> pointMarkersProto w' = None"
proof (cases "map_of (pointMarkers w) (point_id (heap w p))")
  case None
  then have l: "\<not> truthy (lookup env w (point_id (heap w p)))"
    using assms by (simp add: lookup_plain)
  have "point_id (heap w p) \<noteq> ''__proto__''" by (rule falsy_not_proto_name[OF l])
  then show ?thesis using assms(1)
    by (simp add: updatePoint_new[OF l] setX_def modifyMarker_own addPointMarker_registry)
next
  case (Some pm)
  then show ?thesis using assms(1)
    by (simp add: updatePoint_held[OF lookup_own[OF Some]] setX_def modifyMarker_own)
qed

lemma updateEach_plain:
  "pointMarkersProto w = None \<Longrightarrow> plain_ids (heap w) ps \<Longrightarrow>
   \<exists>w'. updateEach env ps w = Returned w' \<and> pointMarkersProto w' = None"
proof (induction ps arbitrary: w)
  case Nil
  then show ?case by simp
next
  case (Cons p ps)
  have "point_id (heap w p) \<notin> set objectPrototypeNames"
    using Cons.prems(2) by (simp add: plain_ids_def)
  from updatePoint_plain[OF Cons.prems(1) this, of env] obtain w1 where
    u: "updatePoint env w p = Returned w1" and p1: "pointMarkersProto w1 = None" by blast
  have "heap w1 = heap w" using updatePoint_heap[of env w p] u by simp
  then have "plain_ids (heap w1) ps" using Cons.prems(2) by (simp add: plain_ids_def)
  from Cons.IH[OF p1 this] show ?case using u by simp
qed

lemma updatePoints_plain_returns:
  assumes "consistent env w store s e" "pointMarkersProto w = None"
    and "plain_ids (heap w) (points_find env (heap w) s e)"
  shows "\<exists>w'. updatePoints env w s e = Returned w' \<and> pointMarkersProto w' = None"
proof -
  from updateEach_plain[OF assms(2,3), of env] obtain w1 where
    r1: "updateEach env (points_find env (heap w) s e) w = Returned w1"
    and p1: "pointMarkersProto w1 = None" by blast
  from updatePoints_second_phase[OF assms(1) r1] p1 show ?thesis by auto
qed

lemma updatePoints_returned_keys:
  assumes c: "consistent env w store s e" and p: "pointMarkersProto w' = None"
    and r: "updatePoints env w s e = Returned w'"
  shows "fst ` set (pointMarkers w') =
         {point_id (heap w p) | p. p \<in> set store \<and> isVisible env (heap w p) s e}"
proof -
  let ?ps = "points_find env (heap w) s e"
  from c have fe: "find_exact env (heap w) store s e" by (simp add: consistent_def)
  obtain w1 where r1: "updateEach env ?ps w = Returned w1"
    using r by (cases "updateEach env ?ps w") (auto simp: updatePoints_def Let_def)
  from updatePoints_second_phase[OF c r1] r have
    h: "heap w' = heap w"
    and m: "\<forall>k. map_of (pointMarkers w') k =
          (case map_of (pointMarkers w1) k of None \<Rightarrow> None
           | Some pm \<Rightarrow> if isVisible env (heap w (getPoint pm)) s e then Some pm else None)"
    and own1: "\<forall>k pm. map_of (pointMarkers w1) k = Some pm \<longrightarrow>
           getPoint pm \<in> set store \<and> point_id (heap w (getPoint pm)) = k"
    and pos: "\<forall>p \<in> set ?ps. positioned env w' p"
    by auto
  have "dom (map_of (pointMarkers w')) =
        {point_id (heap w p) | p. p \<in> set store \<and> isVisible env (heap w p) s e}"
  proof (intro set_eqI iffI)
    fix k assume "k \<in> dom (map_of (pointMarkers w'))"
    then obtain pm where "map_of (pointMarkers w') k = Some pm" by auto
    then have "map_of (pointMarkers w1) k = Some pm" "isVisible env (heap w (getPoint pm)) s e"
      using m by (auto split: option.splits if_splits)
    with own1 show "k \<in> {point_id (heap w p) | p. p \<in> set store \<and> isVisible env (heap w p) s e}"
      by blast
  next
    fix k assume "k \<in> {point_id (heap w p) | p. p \<in> set store \<and> isVisible env (heap w p) s e}"
    then obtain q where q: "q \<in> set store" "isVisible env (heap w q) s e"
      and k: "k = point_id (heap w q)" by auto
    then have "positioned env w' q" using pos find_exactD[OF fe] by simp
    from positionedD[OF this] obtain t pm where "lookup env w' k = Held t pm"
      by (auto simp: h k)
    from lookup_Held[OF this] p show "k \<in> dom (map_of (pointMarkers w'))" by auto
  qed
  then show ?thesis by (simp add: dom_map_of_conv_image_fst)
qed

lemma updatePoints_returned_positions:
  assumes c: "consistent env w store s e" and r: "updatePoints env w s e = Returned w'"
  shows "(\<forall>p \<in> set (points_find env (heap w) s e). positioned env w' p)
       \<and> (\<forall>k pm. map_of (pointMarkers w') k = Some pm \<longrightarrow>
            getX pm = timeToPixels (view env) (time (heap w (getPoint pm)))
                        - getFrameOffset (view env))"
proof -
  let ?ps = "points_find env (heap w) s e"
  from c have fe: "find_exact env (heap w) store s e" by (simp add: consistent_def)
  obtain w1 where r1: "updateEach env ?ps w = Returned w1"
    using r by (cases "updateEach env ?ps w") (auto simp: updatePoints_def Let_def)
  from updatePoints_second_phase[OF c r1] r have
    h: "heap w' = heap w"
    and m: "\<forall>k. map_of (pointMarkers w') k =
          (case map_of (pointMarkers w1) k of None \<Rightarrow> None
           | Some pm \<Rightarrow> if isVisible env (heap w (getPoint pm)) s e then Some pm else None)"
    and own1: "\<forall>k pm. map_of (pointMarkers w1) k = Some pm \<longrightarrow>
           getPoint pm \<in> set store \<and> point_id (heap w (getPoint pm)) = k"
    and pos: "\<forall>p \<in> set ?ps. positioned env w' p"
    by auto
  have "getX pm = markerX env (heap w (getPoint pm))"
    if own: "map_of (pointMarkers w') k = Some pm" for k pm
  proof -
    from own have o1: "map_of (pointMarkers w1) k = Some pm"
      and v: "isVisible env (heap w (getPoint pm)) s e"
      using m by (auto split: option.splits if_splits)
    with own1 have q: "getPoint pm \<in> set store" "point_id (heap w (getPoint pm)) = k" by auto
    then have "positioned env w' (getPoint pm)" using pos v find_exactD[OF fe] by simp
    then show ?thesis using lookup_own[OF own, of env] q(2) by (simp add: positioned_def h)
  qed
  then show ?thesis using pos by (auto simp: markerX_def)
qed

lemmas op_defs = updatePoints_def updatePoint_def findOrAddPointMarker_def addPointMarker_def
  createPointMarker_def addToLayer_def assignMarker_def target_of_key_def lookup_def
  objectPrototypeNames_def modifyMarker_def setX_def timeUpdated_def setTime_def
  removeInvisiblePoints_def removePoint_def destroy_def emit_def onPointsDrag_def
  onPointHandleDragStart_def onPointHandleDragMove_def onPointHandleDragEnd_def konvaDragTo_def
  pointHandleDragBoundFunc_def clamp_def
  Let_def string_or_def number_or_def truthy_string_def defaultFontFamily_def defaultFontSize_def
  defaultFontShape_def

lemmas ctor_defs = scene_env_ctor_def scene_store_ctor_def scene_env_proto_def scene_store_proto_def
  scene_proto_shown_def

lemma scene_proto_shown_reached:
  "run scene_env_proto [PointsAdd [4, 0, 1, 2]] scene_empty = Returned scene_proto_shown"
  by (simp add: scene_defs ctor_defs op_defs onPointsAdd_def)

lemma scene_shown_reached_ctor:
  "run (scene_env_ctor 0) [PointsAdd [3, 0, 1, 2]] scene_empty = Returned scene_shown"
  by (simp add: scene_defs ctor_defs op_defs onPointsAdd_def)

text \<open>
  C1. The store holds, besides \<open>a\<close>, \<open>b\<close> and \<open>c\<close>, a point at 3 s whose id is
  \<open>__proto__\<close>. Adding the four points while the view shows \<open>[0, 6)\<close> makes the
  marker of that point the prototype of the registry object instead of the value of
  a key; the state reached is consistent with the store. \<open>updatePoints(0, 6)\<close> then
  completes and changes nothing: the keys of the registry are \<open>a\<close> and \<open>b\<close>, while
  the visible points are \<open>__proto__\<close>, \<open>a\<close> and \<open>b\<close>. With the point whose id is
  \<open>constructor\<close> in the store instead, \<open>updatePoints(0, 8)\<close> finds the inherited
  \<open>Object.prototype.constructor\<close> under that id and throws at \<open>setX\<close>, so the keys
  stay \<open>a\<close> and \<open>b\<close> there too, one short of the visible points.
\<close>

theorem updatePoints_inherited_id_breaks_key_set:
  "run scene_env_proto [PointsAdd [4, 0, 1, 2]] scene_empty = Returned scene_proto_shown
 \<and> consistent scene_env_proto scene_proto_shown scene_store_proto 0 6
 \<and> {point_id (heap scene_proto_shown p) | p.
       p \<in> set scene_store_proto \<and> isVisible scene_env_proto (heap scene_proto_shown p) 0 6} =
     {''__proto__'', ''a'', ''b''}
 \<and> updatePoints scene_env_proto scene_proto_shown 0 6 = Returned scene_proto_shown
 \<and> fst ` set (pointMarkers scene_proto_shown) = {''a'', ''b''}
 \<and> lookup scene_env_proto scene_proto_shown ''__proto__'' = Held Proto (scene_marker 0 4 30)
 \<and> consistent (scene_env_ctor 0) scene_shown scene_store_ctor 0 8
 \<and> {point_id (heap scene_shown p) | p.
       p \<in> set scene_store_ctor \<and> isVisible (scene_env_ctor 0) (heap scene_shown p) 0 8} =
     {''constructor'', ''a'', ''b''}
 \<and> updatePoints (scene_env_ctor 0) scene_shown 0 8 = Threw TypeError scene_shown
 \<and> fst ` set (pointMarkers scene_shown) = {''a'', ''b''}"
proof -
  have 1: "consistent scene_env_proto scene_proto_shown scene_store_proto 0 6"
    "consistent (scene_env_ctor 0) scene_shown scene_store_ctor 0 8"
    by (simp_all add: consistent_defs scene_defs ctor_defs)
  have 2: "{point_id (heap scene_proto_shown p) | p.
       p \<in> set scene_store_proto \<and> isVisible scene_env_proto (heap scene_proto_shown p) 0 6} =
     {''__proto__'', ''a'', ''b''}"
    "{point_id (heap scene_shown p) | p.
       p \<in> set scene_store_ctor \<and> isVisible (scene_env_ctor 0) (heap scene_shown p) 0 8} =
     {''constructor'', ''a'', ''b''}"
    unfolding image_filter_set by (simp_all add: scene_defs ctor_defs)
  have 3: "updatePoints scene_env_proto scene_proto_shown 0 6 = Returned scene_proto_shown"
    "updatePoints (scene_env_ctor 0) scene_shown 0 8 = Threw TypeError scene_shown"
    by (simp_all add: scene_defs ctor_defs op_defs)
  have 4: "fst ` set (pointMarkers scene_proto_shown) = {''a'', ''b''}"
    "fst ` set (pointMarkers scene_shown) = {''a'', ''b''}"
    "lookup scene_env_proto scene_proto_shown ''__proto__'' = Held Proto (scene_marker 0 4 30)"
    by (simp_all add: scene_defs ctor_defs lookup_def)
  show ?thesis using 1 2 3 4 scene_proto_shown_reached by simp
qed

text \<open>
  Position correctness of a pass that returns. For a registry consistent with the
  store, whenever \<open>updatePoints\<close> returns, the lookup of every point returned by \<open>find\<close> gives a
  marker whose position is \<open>timeToPixels(point.time)\<close> minus the frame offset, and
  which is the point's own marker when it is held under the point's id; every marker
  left in the registry is at the position computed from its point's time, so none is
  stale; and no point's time has changed. The pass does complete when the registry
  object has its original prototype and no id returned by \<open>find\<close> names a member of
  \<open>Object.prototype\<close>.
\<close>

lemma updatePoints_returned_position_correct:
  assumes "consistent env w store startTime endTime"
  shows "(updatePoints env w startTime endTime = Returned w' \<longrightarrow>
            heap w' = heap w
          \<and> (\<forall>p \<in> set (points_find env (heap w) startTime endTime).
               \<exists>t pm. lookup env w' (point_id (heap w p)) = Held t pm
                 \<and> (t = OwnKey (point_id (heap w p)) \<longrightarrow> getPoint pm = p)
                 \<and> getX pm =
                     timeToPixels (view env) (time (heap w p)) - getFrameOffset (view env))
          \<and> (\<forall>k pm. map_of (pointMarkers w') k = Some pm \<longrightarrow>
               getX pm = timeToPixels (view env) (time (heap w (getPoint pm)))
                           - getFrameOffset (view env)))
       \<and> (pointMarkersProto w = None
            \<and> plain_ids (heap w) (points_find env (heap w) startTime endTime) \<longrightarrow>
          (\<exists>w'. updatePoints env w startTime endTime = Returned w'))"
proof (intro conjI impI ballI)
  assume r: "updatePoints env w startTime endTime = Returned w'"
  let ?ps = "points_find env (heap w) startTime endTime"
  from assms have fe: "find_exact env (heap w) store startTime endTime"
    and un: "unique_ids (heap w) store"
    by (simp_all add: consistent_def)
  obtain w1 where r1: "updateEach env ?ps w = Returned w1"
    using r by (cases "updateEach env ?ps w") (auto simp: updatePoints_def Let_def)
  from updatePoints_second_phase[OF assms r1] r have
    h: "heap w' = heap w"
    and m: "\<forall>k. map_of (pointMarkers w') k =
          (case map_of (pointMarkers w1) k of None \<Rightarrow> None
           | Some pm \<Rightarrow> if isVisible env (heap w (getPoint pm)) startTime endTime
                        then Some pm else None)"
    and own1: "\<forall>k pm. map_of (pointMarkers w1) k = Some pm \<longrightarrow>
           getPoint pm \<in> set store \<and> point_id (heap w (getPoint pm)) = k"
    by auto
  show "heap w' = heap w" by (rule h)
  show "\<forall>k pm. map_of (pointMarkers w') k = Some pm \<longrightarrow>
               getX pm = timeToPixels (view env) (time (heap w (getPoint pm)))
                           - getFrameOffset (view env)"
    using updatePoints_returned_positions[OF assms r] by blast
  fix p assume p: "p \<in> set ?ps"
  then have ps: "p \<in> set store" using find_exactD[OF fe] by simp
  from updatePoints_returned_positions[OF assms r] p have "positioned env w' p" by blast
  from positionedD[OF this] obtain t pm where
    l: "lookup env w' (point_id (heap w p)) = Held t pm"
    and x: "getX pm = markerX env (heap w p)"
    by (auto simp: h)
  have "getPoint pm = p" if t: "t = OwnKey (point_id (heap w p))"
  proof -
    from lookup_Held[OF l] t have "map_of (pointMarkers w') (point_id (heap w p)) = Some pm"
      by auto
    then have "map_of (pointMarkers w1) (point_id (heap w p)) = Some pm"
      using m by (auto split: option.splits if_splits)
    with own1 have "getPoint pm \<in> set store"
      "point_id (heap w (getPoint pm)) = point_id (heap w p)" by auto
    then show ?thesis using unique_idsD[OF un _ ps] by blast
  qed
  then show "\<exists>t pm. lookup env w' (point_id (heap w p)) = Held t pm
                 \<and> (t = OwnKey (point_id (heap w p)) \<longrightarrow> getPoint pm = p)
                 \<and> getX pm =
                     timeToPixels (view env) (time (heap w p)) - getFrameOffset (view env)"
    using l x by (auto simp: markerX_def)
next
  assume "pointMarkersProto w = None
            \<and> plain_ids (heap w) (points_find env (heap w) startTime endTime)"
  then show "\<exists>w'. updatePoints env w startTime endTime = Returned w'"
    using updatePoints_plain_returns[OF assms] by blast
qed

lemma updatePoints_returned_position_correct_example:
  "consistent (scene_env 4 10 20) scene_shown scene_store 4 10
 \<and> points_find (scene_env 4 10 20) (heap scene_shown) 4 10 = [1, 2]
 \<and> (\<exists>w'. updatePoints (scene_env 4 10 20) scene_shown 4 10 = Returned w'
      \<and> (\<exists>t pm. lookup (scene_env 4 10 20) w' ''b'' = Held t pm \<and> getX pm = 30)
      \<and> (\<exists>t pm. lookup (scene_env 4 10 20) w' ''c'' = Held t pm \<and> getX pm = 70))"
proof -
  let ?E = "scene_env 4 10 20"
  have h: "consistent ?E scene_shown scene_store 4 10"
    by (simp add: consistent_defs scene_defs)
  have f: "points_find ?E (heap scene_shown) 4 10 = [1, 2]"
    by (simp add: scene_defs)
  have pl: "pointMarkersProto scene_shown = None
     \<and> plain_ids (heap scene_shown) (points_find ?E (heap scene_shown) 4 10)"
    unfolding f by (simp add: scene_defs plain_ids_def objectPrototypeNames_def)
  have e: "timeToPixels (view ?E) (time (heap scene_shown (Suc 0))) - getFrameOffset (view ?E) = 30"
    "timeToPixels (view ?E) (time (heap scene_shown 2)) - getFrameOffset (view ?E) = 70"
    "point_id (heap scene_shown (Suc 0)) = ''b''" "point_id (heap scene_shown 2) = ''c''"
    by (simp_all add: scene_defs)
  from updatePoints_returned_position_correct[OF h] pl obtain w' where
    r: "updatePoints ?E scene_shown 4 10 = Returned w'" by blast
  from updatePoints_returned_position_correct[OF h, of w'] r have
    "\<forall>p \<in> set [1, 2]. \<exists>t pm. lookup ?E w' (point_id (heap scene_shown p)) = Held t pm
        \<and> getX pm = timeToPixels (view ?E) (time (heap scene_shown p)) - getFrameOffset (view ?E)"
    unfolding f by blast
  then show ?thesis using h f r by (simp add: e)
qed

text \<open>
  C3. In the scene that shows \<open>a\<close> and \<open>b\<close>, with the point \<open>constructor\<close> at
  7 s in the store, the view is scrolled to frame offset 20 and \<open>updatePoints(2, 8)\<close>
  is called; the registry is consistent with the store and \<open>find\<close> returns the points
  \<open>constructor\<close> and \<open>b\<close>. The pass throws at the first of them, where \<open>setX\<close> is
  called on the inherited \<open>Object.prototype.constructor\<close>: the point \<open>constructor\<close>
  has no marker, and the marker of \<open>b\<close> stays at 50 where its position should be 30.
\<close>

theorem updatePoints_inherited_id_leaves_markers_stale:
  "run (scene_env_ctor 0) [PointsAdd [3, 0, 1, 2]] scene_empty = Returned scene_shown
 \<and> consistent (scene_env_ctor 20) scene_shown scene_store_ctor 2 8
 \<and> points_find (scene_env_ctor 20) (heap scene_shown) 2 8 = [3, 1]
 \<and> updatePoints (scene_env_ctor 20) scene_shown 2 8 = Threw TypeError scene_shown
 \<and> lookup (scene_env_ctor 20) scene_shown (point_id (heap scene_shown 3)) = Inherited True
 \<and> lookup (scene_env_ctor 20) scene_shown (point_id (heap scene_shown 1)) =
      Held (OwnKey ''b'') (scene_marker 1 1 50)
 \<and> getX (scene_marker 1 1 50) = 50
 \<and> timeToPixels (view (scene_env_ctor 20)) (time (heap scene_shown 1))
      - getFrameOffset (view (scene_env_ctor 20)) = 30"
proof -
  have 1: "consistent (scene_env_ctor 20) scene_shown scene_store_ctor 2 8"
    by (simp add: consistent_defs scene_defs ctor_defs)
  have 2: "points_find (scene_env_ctor 20) (heap scene_shown) 2 8 = [3, 1]"
    by (simp add: scene_defs ctor_defs)
  have 3: "updatePoints (scene_env_ctor 20) scene_shown 2 8 = Threw TypeError scene_shown"
    by (simp add: scene_defs ctor_defs op_defs)
  have 4: "lookup (scene_env_ctor 20) scene_shown (point_id (heap scene_shown 3)) = Inherited True"
    "lookup (scene_env_ctor 20) scene_shown (point_id (heap scene_shown 1)) =
      Held (OwnKey ''b'') (scene_marker 1 1 50)"
    "getX (scene_marker 1 1 50) = 50"
    "timeToPixels (view (scene_env_ctor 20)) (time (heap scene_shown 1))
      - getFrameOffset (view (scene_env_ctor 20)) = 30"
    by (simp_all add: scene_defs ctor_defs lookup_def objectPrototypeNames_def)
  show ?thesis using 1 2 3 4 scene_shown_reached_ctor by simp
qed

section \<open>Removal\<close>

lemma onPointsRemove_heap: "heap (state_of (onPointsRemove env w ps)) = heap w"
proof (induction ps arbitrary: w)
  case Nil
  then show ?case by simp
next
  case (Cons p ps)
  show ?case
    using Cons.IH[of "state_of (removePoint env w p)"] removePoint_frame(1)[of env w p]
    by (cases "removePoint env w p") simp_all
qed

lemma removePoint_plain:
  assumes "pointMarkersProto w = None" "point_id (heap w p) \<notin> set objectPrototypeNames"
  shows "removePoint env w p =
     (case map_of (pointMarkers w) (point_id (heap w p)) of
        None \<Rightarrow> Returned w
      | Some pm \<Rightarrow>
          Returned ((destroy pm w)\<lparr>pointMarkers :=
                      AList.delete (point_id (heap w p)) (pointMarkers w)\<rparr>))"
proof (cases "map_of (pointMarkers w) (point_id (heap w p))")
  case None
  then have "\<not> truthy (lookup env w (point_id (heap w p)))"
    using assms by (simp add: lookup_plain)
  then show ?thesis using None by (simp add: removePoint_falsy)
next
  case (Some pm)
  then show ?thesis by (simp add: removePoint_own)
qed

text \<open>
  Away from the inherited names a \<open>points.remove\<close> notification returns, deletes
  exactly the keys of the points it names, and destroys and detaches exactly their
  markers.
\<close>

lemma onPointsRemove_plain:
  "pointMarkersProto w = None \<Longrightarrow> plain_ids (heap w) ps \<Longrightarrow>
   \<exists>w'. onPointsRemove env w ps = Returned w' \<and> heap w' = heap w
     \<and> pointMarkersProto w' = None
     \<and> (\<forall>k. map_of (pointMarkers w') k =
          (if k \<in> (\<lambda>q. point_id (heap w q)) ` set ps then None else map_of (pointMarkers w) k))
     \<and> set (destroyed w') = set (destroyed w) \<union>
          {uid pm | pm q. q \<in> set ps \<and> map_of (pointMarkers w) (point_id (heap w q)) = Some pm}
     \<and> set (layer w') = set (layer w) -
          {uid pm | pm q. q \<in> set ps \<and> map_of (pointMarkers w) (point_id (heap w q)) = Some pm}
     \<and> constructed w' = constructed w"
proof (induction ps arbitrary: w)
  case Nil
  then show ?case by simp
next
  case (Cons p ps)
  let ?k = "point_id (heap w p)"
  have pk: "?k \<notin> set objectPrototypeNames" and pps: "plain_ids (heap w) ps"
    using Cons.prems(2) by (simp_all add: plain_ids_def)
  note rp = removePoint_plain[OF Cons.prems(1) pk, of env]
  show ?case
  proof (cases "map_of (pointMarkers w) ?k")
    case None
    then have r: "removePoint env w p = Returned w" using rp by simp
    from Cons.IH[OF Cons.prems(1) pps] obtain w' where
      w': "onPointsRemove env w ps = Returned w'" "heap w' = heap w" "pointMarkersProto w' = None"
      "\<forall>k. map_of (pointMarkers w') k =
          (if k \<in> (\<lambda>q. point_id (heap w q)) ` set ps then None else map_of (pointMarkers w) k)"
      "set (destroyed w') = set (destroyed w) \<union>
          {uid pm | pm q. q \<in> set ps \<and> map_of (pointMarkers w) (point_id (heap w q)) = Some pm}"
      "set (layer w') = set (layer w) -
          {uid pm | pm q. q \<in> set ps \<and> map_of (pointMarkers w) (point_id (heap w q)) = Some pm}"
      "constructed w' = constructed w"
      by blast
    have same: "{uid pm | pm q. q \<in> set (p # ps) \<and> map_of (pointMarkers w) (point_id (heap w q)) = Some pm} =
        {uid pm | pm q. q \<in> set ps \<and> map_of (pointMarkers w) (point_id (heap w q)) = Some pm}"
      using None by auto
    show ?thesis
      unfolding same using w' r None by (intro exI[of _ w']) auto
  next
    case (Some pm0)
    let ?w1 = "(destroy pm0 w)\<lparr>pointMarkers := AList.delete ?k (pointMarkers w)\<rparr>"
    have r: "removePoint env w p = Returned ?w1" using rp Some by simp
    have f1: "heap ?w1 = heap w" "pointMarkersProto ?w1 = None" "constructed ?w1 = constructed w"
      "destroyed ?w1 = destroyed w @ [uid pm0]" "layer ?w1 = removeAll (uid pm0) (layer w)"
      "map_of (pointMarkers ?w1) = (map_of (pointMarkers w))(?k := None)"
      using Cons.prems(1) by (simp_all add: destroy_frame delete_conv')
    have pps1: "plain_ids (heap ?w1) ps" using pps by (simp add: f1)
    from Cons.IH[OF f1(2) pps1] obtain w' where
      w': "onPointsRemove env ?w1 ps = Returned w'" "heap w' = heap ?w1" "pointMarkersProto w' = None"
      "\<forall>k. map_of (pointMarkers w') k =
          (if k \<in> (\<lambda>q. point_id (heap ?w1 q)) ` set ps then None else map_of (pointMarkers ?w1) k)"
      "set (destroyed w') = set (destroyed ?w1) \<union>
          {uid pm | pm q. q \<in> set ps \<and> map_of (pointMarkers ?w1) (point_id (heap ?w1 q)) = Some pm}"
      "set (layer w') = set (layer ?w1) -
          {uid pm | pm q. q \<in> set ps \<and> map_of (pointMarkers ?w1) (point_id (heap ?w1 q)) = Some pm}"
      "constructed w' = constructed ?w1"
      by blast
    have u: "insert (uid pm0)
        {uid pm | pm q. q \<in> set ps \<and> map_of (pointMarkers ?w1) (point_id (heap ?w1 q)) = Some pm} =
        {uid pm | pm q. q \<in> set (p # ps) \<and> map_of (pointMarkers w) (point_id (heap w q)) = Some pm}"
      unfolding f1 using Some by (auto split: if_splits) (metis option.inject)+
    have 1: "onPointsRemove env w (p # ps) = Returned w'" using r w'(1) by simp
    have 2: "\<forall>k. map_of (pointMarkers w') k =
          (if k \<in> (\<lambda>q. point_id (heap w q)) ` set (p # ps) then None else map_of (pointMarkers w) k)"
      using w'(4) unfolding f1 by auto
    have 3: "set (destroyed w') = set (destroyed w) \<union>
          {uid pm | pm q. q \<in> set (p # ps) \<and> map_of (pointMarkers w) (point_id (heap w q)) = Some pm}"
      unfolding u[symmetric] w'(5) f1 by auto
    have 4: "set (layer w') = set (layer w) -
          {uid pm | pm q. q \<in> set (p # ps) \<and> map_of (pointMarkers w) (point_id (heap w q)) = Some pm}"
      unfolding u[symmetric] w'(6) f1 by auto
    show ?thesis using 1 2 3 4 w'(2,3,7) f1(1,3) by (intro exI[of _ w']) simp
  qed
qed

text \<open>
  C8. In the scene that shows \<open>a\<close> and \<open>b\<close>, reached by adding the points of the
  store that also holds the point \<open>constructor\<close> at 7 s, that point is outside the
  window and has no registered marker. Removing it is not a silent no-op:
  \<open>_removePoint\<close> finds the inherited \<open>Object.prototype.constructor\<close>, calls
  \<open>destroy()\<close> on it and throws, and so does a \<open>points.remove\<close> notification that
  names the point, which then never reaches the other points it names: the marker of
  \<open>a\<close> is still registered.
\<close>

theorem removePoint_inherited_id_throws:
  "run (scene_env_ctor 0) [PointsAdd [3, 0, 1, 2]] scene_empty = Returned scene_shown
 \<and> point_id (heap scene_shown 3) = ''constructor''
 \<and> map_of (pointMarkers scene_shown) (point_id (heap scene_shown 3)) = None
 \<and> lookup (scene_env_ctor 0) scene_shown (point_id (heap scene_shown 3)) = Inherited True
 \<and> removePoint (scene_env_ctor 0) scene_shown 3 = Threw TypeError scene_shown
 \<and> dispatch (scene_env_ctor 0) (PointsRemove [3, 0]) scene_shown = Threw TypeError scene_shown
 \<and> map_of (pointMarkers scene_shown) ''a'' = Some (scene_marker 0 0 10)"
proof -
  have 1: "removePoint (scene_env_ctor 0) scene_shown 3 = Threw TypeError scene_shown"
    by (simp add: scene_defs ctor_defs removePoint_def lookup_def objectPrototypeNames_def)
  have 2: "dispatch (scene_env_ctor 0) (PointsRemove [3, 0]) scene_shown =
      Threw TypeError scene_shown"
    by (simp add: 1)
  have 3: "lookup (scene_env_ctor 0) scene_shown (point_id (heap scene_shown 3)) = Inherited True"
    by (simp add: scene_defs ctor_defs lookup_def objectPrototypeNames_def)
  show ?thesis unfolding 1 2 3 using scene_shown_reached_ctor by (simp add: scene_defs)
qed

section \<open>Marker creation and full reset\<close>

text \<open>
  C7 as stated fails where an option is set to a falsy value: a font size configured
  as 0 gives a marker of size 10, an empty font family or style gives the default,
  and a point whose colour is the empty string gets the global colour.
\<close>

theorem createPointMarker_falsy_options_counterexample:
  "fontSize (options scene_env_blank) = Some 0
 \<and> opt_fontSize (marker (fst (createPointMarker scene_env_blank scene_empty 2))) \<noteq> 0
 \<and> fontFamily (options scene_env_blank) = Some []
 \<and> opt_fontFamily (marker (fst (createPointMarker scene_env_blank scene_empty 2))) \<noteq> []
 \<and> fontStyle (options scene_env_blank) = Some []
 \<and> opt_fontStyle (marker (fst (createPointMarker scene_env_blank scene_empty 2))) \<noteq> []
 \<and> color (heap scene_empty 2) = Some []
 \<and> opt_color (marker (fst (createPointMarker scene_env_blank scene_empty 2))) \<noteq> Some []"
  by (simp add: scene_env_blank_def scene_defs createPointMarker_def Let_def string_or_def
      number_or_def truthy_string_def defaultFontFamily_def defaultFontSize_def
      defaultFontShape_def)

text \<open>
  C7, amended. A created marker takes the point's own colour when that is a non-empty
  string and the global \<open>pointMarkerColor\<close> otherwise; the host's font family, size
  and style when they are a non-empty string, a non-zero number and a non-empty
  string, and \<open>sans-serif\<close>, \<open>10\<close> and \<open>normal\<close> otherwise. It is draggable exactly
  when the layer's editing flag and \<open>point.editable\<close> are both true, so a disabled
  layer flag overrides the point. \<open>_addPointMarker\<close> registers exactly this marker, and
  so does \<open>_findOrAddPointMarker\<close> when the lookup of the point's id gives a falsy
  value.
\<close>

theorem createPointMarker_styling:
  "opt_color (marker (fst (createPointMarker env w p))) =
     (case color (heap w p) of
        None \<Rightarrow> pointMarkerColor (options env)
      | Some c \<Rightarrow> if c \<noteq> [] then Some c else pointMarkerColor (options env))
 \<and> opt_fontFamily (marker (fst (createPointMarker env w p))) =
     (case fontFamily (options env) of
        None \<Rightarrow> ''sans-serif'' | Some f \<Rightarrow> if f \<noteq> [] then f else ''sans-serif'')
 \<and> opt_fontSize (marker (fst (createPointMarker env w p))) =
     (case fontSize (options env) of
        None \<Rightarrow> 10 | Some n \<Rightarrow> if n \<noteq> 0 then n else 10)
 \<and> opt_fontStyle (marker (fst (createPointMarker env w p))) =
     (case fontStyle (options env) of
        None \<Rightarrow> ''normal'' | Some f \<Rightarrow> if f \<noteq> [] then f else ''normal'')
 \<and> draggable (fst (createPointMarker env w p)) = (allowEditing w \<and> editable (heap w p))
 \<and> opt_draggable (marker (fst (createPointMarker env w p))) =
     (allowEditing w \<and> editable (heap w p))
 \<and> (\<not> allowEditing w \<longrightarrow> \<not> draggable (fst (createPointMarker env w p)))
 \<and> fst (addPointMarker env w p) = fst (createPointMarker env w p)
 \<and> (\<not> truthy (lookup env w (point_id (heap w p))) \<longrightarrow>
      fst (findOrAddPointMarker env w p) =
        Held (OwnKey (point_id (heap w p))) (fst (createPointMarker env w p)))"
proof -
  have "fst (findOrAddPointMarker env w p) =
        Held (OwnKey (point_id (heap w p))) (fst (createPointMarker env w p))"
    if f: "\<not> truthy (lookup env w (point_id (heap w p)))"
    using falsy_not_proto_name[OF f] f
    by (simp add: findOrAddPointMarker_def Let_def split_beta target_of_key_def
        addPointMarker_registry)
  then show ?thesis
    by (simp add: createPointMarker_def Let_def string_or_def number_or_def truthy_string_def
        defaultFontFamily_def defaultFontSize_def defaultFontShape_def addPointMarker_registry
        split: option.splits)
qed

theorem createPointMarker_styling_witness:
  "opt_color (marker (fst (createPointMarker (scene_env 0 6 0) scene_empty 1))) = Some ''red''
 \<and> opt_color (marker (fst (createPointMarker (scene_env 0 6 0) scene_empty 0))) = Some ''blue''
 \<and> opt_fontFamily (marker (fst (createPointMarker (scene_env 0 6 0) scene_empty 1))) = ''sans-serif''
 \<and> opt_fontSize (marker (fst (createPointMarker (scene_env 0 6 0) scene_empty 1))) = 12
 \<and> opt_fontStyle (marker (fst (createPointMarker (scene_env 0 6 0) scene_empty 1))) = ''bold''
 \<and> \<not> draggable (fst (createPointMarker (scene_env 0 6 0) scene_empty 1))
 \<and> draggable (fst (createPointMarker (scene_env 0 6 0) scene_empty 0))
 \<and> \<not> draggable (fst (createPointMarker (scene_env 0 6 0) (enableEditing scene_empty False) 0))
 \<and> fst (findOrAddPointMarker (scene_env 0 6 0) scene_empty 1) =
     Held (OwnKey ''b'') (fst (createPointMarker (scene_env 0 6 0) scene_empty 1))"
proof -
  have a: "\<not> allowEditing (enableEditing scene_empty False)"
    by (simp add: enableEditing_def)
  have b: "\<not> truthy (lookup (scene_env 0 6 0) scene_empty (point_id (heap scene_empty 1)))"
    by (simp add: scene_defs lookup_def objectPrototypeNames_def)
  have c: "color (heap scene_empty (Suc 0)) = Some ''red''" "color (heap scene_empty 0) = None"
    "options (scene_env 0 6 0) = \<lparr>pointMarkerColor = Some ''blue'', fontFamily = None,
        fontSize = Some 12, fontStyle = Some ''bold''\<rparr>"
    "allowEditing scene_empty" "editable (heap scene_empty 0)"
    "\<not> editable (heap scene_empty (Suc 0))" "point_id (heap scene_empty (Suc 0)) = ''b''"
    by (simp_all add: scene_defs)
  show ?thesis
    using createPointMarker_styling[of "scene_env 0 6 0" scene_empty 1]
      createPointMarker_styling[of "scene_env 0 6 0" scene_empty 0]
      createPointMarker_styling[of "scene_env 0 6 0" "enableEditing scene_empty False" 0] a b
    by (simp add: c)
qed

lemma onPointsRemoveAll_frame:
  "pointMarkers (onPointsRemoveAll w) = []"
  "pointMarkersProto (onPointsRemoveAll w) = None"
  "layer (onPointsRemoveAll w) = []"
  "destroyed (onPointsRemoveAll w) = destroyed w"
  "heap (onPointsRemoveAll w) = heap w"
  "constructed (onPointsRemoveAll w) = constructed w"
  "dragPointMarker (onPointsRemoveAll w) = dragPointMarker w"
  "emitted (onPointsRemoveAll w) = emitted w"
  "allowEditing (onPointsRemoveAll w) = allowEditing w"
  by (simp_all add: onPointsRemoveAll_def)

text \<open>
  C5. On \<open>points.remove_all\<close> the registry and the layer become empty, but no
  marker is destroyed: in the scene showing the markers of \<open>a\<close> and \<open>b\<close> the
  record of destroyed markers stays empty, whereas removing the same two points
  through \<open>points.remove\<close> destroys both.
\<close>

theorem onPointsRemoveAll_destroys_no_marker:
  "pointMarkers (onPointsRemoveAll scene_shown) = []
 \<and> layer (onPointsRemoveAll scene_shown) = []
 \<and> map fst (pointMarkers scene_shown) = [''a'', ''b'']
 \<and> destroyed (onPointsRemoveAll scene_shown) = []
 \<and> (\<exists>w'. onPointsRemove (scene_env 0 6 0) scene_shown [0, 1] = Returned w'
        \<and> destroyed w' = [0, 1])"
  by (simp add: onPointsRemoveAll_def scene_defs removePoint_def lookup_def destroy_def)

section \<open>The drag session\<close>

lemma updatePoint_frame:
  "dragPointMarker (state_of (updatePoint env w p)) = dragPointMarker w"
  "emitted (state_of (updatePoint env w p)) = emitted w"
  "allowEditing (state_of (updatePoint env w p)) = allowEditing w"
  "destroyed (state_of (updatePoint env w p)) = destroyed w"
  by (cases "lookup env w (point_id (heap w p))" rule: slot_cases;
      simp add: updatePoint_held updatePoint_foreign updatePoint_new setX_frame
        addPointMarker_frame)+

lemma updateEach_drag: "dragPointMarker (state_of (updateEach env ps w)) = dragPointMarker w"
proof (induction ps arbitrary: w)
  case Nil
  then show ?case by simp
next
  case (Cons p ps)
  show ?case
    using Cons.IH[of "state_of (updatePoint env w p)"] updatePoint_frame(1)[of env w p]
    by (cases "updatePoint env w p") simp_all
qed

lemma removeInvisibleLoop_drag:
  "(case removeInvisibleLoop env s e ks w c of
      Returned (w', c') \<Rightarrow> dragPointMarker w' | Threw err w' \<Rightarrow> dragPointMarker w') =
   dragPointMarker w"
proof (induction ks arbitrary: w c)
  case Nil
  then show ?case by simp
next
  case (Cons k ks)
  show ?case
  proof (cases "map_of (pointMarkers w) k")
    case None
    then show ?thesis using Cons.IH[of w c] by simp
  next
    case (Some pm)
    show ?thesis
    proof (cases "isVisible env (heap w (getPoint pm)) s e")
      case True
      then show ?thesis using Some Cons.IH[of w c] by simp
    next
      case False
      show ?thesis
        using Some False Cons.IH[of "state_of (removePoint env w (getPoint pm))" "c + 1"]
          removePoint_frame(3)[of env w "getPoint pm"]
        by (cases "removePoint env w (getPoint pm)") simp_all
    qed
  qed
qed

lemma updatePoints_drag:
  "dragPointMarker (state_of (updatePoints env w s e)) = dragPointMarker w"
proof (cases "updateEach env (points_find env (heap w) s e) w")
  case (Threw err w1)
  then show ?thesis
    using updateEach_drag[of env "points_find env (heap w) s e" w]
    by (simp add: updatePoints_def Let_def)
next
  case (Returned w1)
  then have d1: "dragPointMarker w1 = dragPointMarker w"
    using updateEach_drag[of env "points_find env (heap w) s e" w] by simp
  show ?thesis
    using Returned d1 removeInvisibleLoop_drag[of env s e "map fst (pointMarkers w1)" w1 0]
    by (cases "removeInvisibleLoop env s e (map fst (pointMarkers w1)) w1 0")
       (auto simp: updatePoints_def Let_def removeInvisiblePoints_def)
qed

lemma addEach_drag: "dragPointMarker (addEach env s e ps w) = dragPointMarker w"
  by (induction ps arbitrary: w) (simp_all add: addPointMarker_frame)

lemma onPointsRemove_drag:
  "dragPointMarker (state_of (onPointsRemove env w ps)) = dragPointMarker w"
proof (induction ps arbitrary: w)
  case Nil
  then show ?case by simp
next
  case (Cons p ps)
  show ?case
    using Cons.IH[of "state_of (removePoint env w p)"] removePoint_frame(3)[of env w p]
    by (cases "removePoint env w p") simp_all
qed

lemma emit_drag: "dragPointMarker (state_of (emit env tp p w)) = dragPointMarker w"
  by (simp add: emit_def onPointsDrag_def updatePoint_frame Let_def)

lemma setTime_frame:
  "pointMarkers (setTime p t w) = pointMarkers w"
  "pointMarkersProto (setTime p t w) = pointMarkersProto w"
  "heap (setTime p t w) = (heap w)(p := (heap w p)\<lparr>time := t\<rparr>)"
  "emitted (setTime p t w) = emitted w"
  "dragPointMarker (setTime p t w) = dragPointMarker w"
  "layer (setTime p t w) = layer w"
  "constructed (setTime p t w) = constructed w"
  "destroyed (setTime p t w) = destroyed w"
  "allowEditing (setTime p t w) = allowEditing w"
  by (simp_all add: setTime_def)

lemma onPointsUpdate_drag:
  "dragPointMarker (state_of (onPointsUpdate env w p)) = dragPointMarker w"
  using removePoint_frame(3)[of env w p]
  by (cases "removePoint env w p")
     (simp_all add: onPointsUpdate_def Let_def updatePoints_drag addPointMarker_frame)

lemma onPointHandleDragMove_drag:
  "dragPointMarker (state_of (onPointHandleDragMove env w p)) = dragPointMarker w"
  by (cases "lookup env w (point_id (heap w p))")
     (simp_all add: onPointHandleDragMove_def Let_def emit_drag timeUpdated_frame setTime_frame)

lemma dispatch_drag:
  "dragPointMarker (state_of (dispatch env ev w)) =
     (case ev of
        HandleDragStart p \<Rightarrow> drag_ref_of (lookup env w (point_id (heap w p)))
      | HandleDragEnd p \<Rightarrow> Null
      | _ \<Rightarrow> dragPointMarker w)"
proof (cases ev)
  case (HandleDragBound x y)
  then show ?thesis
    by (cases "dragPointMarker w") (simp_all add: pointHandleDragBoundFunc_def)
qed (simp_all add: onPointsUpdate_drag onPointsAdd_def Let_def updatePoints_drag addEach_drag
      onPointsRemove_drag onPointsRemoveAll_def onPointsDrag_def updatePoint_frame
      onPointHandleClick_def onPointHandleDblClick_def onPointHandleMouseEnter_def
      onPointHandleMouseLeave_def onPointHandleContextMenu_def onPointHandleDragStart_def
      onPointHandleDragEnd_def onPointHandleDragMove_drag emit_drag enableEditing_def)

lemma run_append:
  "run env (evs @ evs') w =
     (case run env evs w of Threw err w' \<Rightarrow> Threw err w' | Returned w' \<Rightarrow> run env evs' w')"
  by (induction evs arbitrary: w) (auto split: result.splits)

lemma after_append: "after env (evs @ evs') w = after env evs' (after env evs w)"
  by (induction evs arbitrary: w) simp_all

lemma run_no_boundary:
  "\<forall>ev \<in> set evs. \<not> drag_boundary ev \<Longrightarrow>
   dragPointMarker (state_of (run env evs w)) = dragPointMarker w"
proof (induction evs arbitrary: w)
  case Nil
  then show ?case by simp
next
  case (Cons ev evs)
  have "\<not> drag_boundary ev" using Cons.prems by simp
  then have d: "dragPointMarker (state_of (dispatch env ev w)) = dragPointMarker w"
    using dispatch_drag[of env ev w] by (cases ev) simp_all
  have "dragPointMarker (state_of (run env evs (state_of (dispatch env ev w)))) =
        dragPointMarker (state_of (dispatch env ev w))"
    using Cons.IH Cons.prems by simp
  then show ?case using d by (cases "dispatch env ev w") simp_all
qed

lemma after_no_boundary:
  "\<forall>ev \<in> set evs. \<not> drag_boundary ev \<Longrightarrow>
   dragPointMarker (after env evs w) = dragPointMarker w"
proof (induction evs arbitrary: w)
  case Nil
  then show ?case by simp
next
  case (Cons ev evs)
  have "\<not> drag_boundary ev" using Cons.prems by simp
  then have d: "dragPointMarker (state_of (dispatch env ev w)) = dragPointMarker w"
    using dispatch_drag[of env ev w] by (cases ev) simp_all
  show ?case using Cons.IH[of "state_of (dispatch env ev w)"] Cons.prems d by simp
qed

text \<open>
  C9. The layer has one drag-session field, which holds at most one marker. A
  drag-start sets it to what the registry gives for the started point: its marker,
  \<open>undefined\<close> when there is nothing under the point's id, an inherited value that
  is no marker otherwise, and never a second marker. A drag-end sets it to \<open>null\<close>, and every other notification or call leaves
  it as it is, whether the handler returns or throws. Hence, over any sequence of
  events, the field keeps the value of the drag-start as long as no further
  drag-start or drag-end arrives, and is \<open>null\<close> after every sequence that ends with
  a drag-end.
\<close>

theorem drag_session_single_reference:
  "dragPointMarker (state_of (dispatch env ev w)) =
     (case ev of
        HandleDragStart p \<Rightarrow> drag_ref_of (lookup env w (point_id (heap w p)))
      | HandleDragEnd p \<Rightarrow> Null
      | _ \<Rightarrow> dragPointMarker w)
 \<and> ((\<forall>ev \<in> set evs. \<not> drag_boundary ev) \<longrightarrow>
      dragPointMarker (state_of (run env (HandleDragStart p # evs) w)) =
        drag_ref_of (lookup env w (point_id (heap w p)))
    \<and> dragPointMarker (after env (HandleDragStart p # evs) w) =
        drag_ref_of (lookup env w (point_id (heap w p))))
 \<and> (run env (evs @ [HandleDragEnd p]) w = Returned w' \<longrightarrow> dragPointMarker w' = Null)
 \<and> dragPointMarker (after env (evs @ [HandleDragEnd p]) w) = Null"
proof (intro conjI impI)
  show "dragPointMarker (state_of (dispatch env ev w)) =
     (case ev of
        HandleDragStart p \<Rightarrow> drag_ref_of (lookup env w (point_id (heap w p)))
      | HandleDragEnd p \<Rightarrow> Null
      | _ \<Rightarrow> dragPointMarker w)"
    by (rule dispatch_drag)
next
  assume nb: "\<forall>ev \<in> set evs. \<not> drag_boundary ev"
  let ?r = "dispatch env (HandleDragStart p) w"
  have s: "dragPointMarker (state_of ?r) = drag_ref_of (lookup env w (point_id (heap w p)))"
    using dispatch_drag[of env "HandleDragStart p" w] by simp
  have "dragPointMarker (state_of (run env evs (state_of ?r))) = dragPointMarker (state_of ?r)"
    by (rule run_no_boundary[OF nb])
  then show "dragPointMarker (state_of (run env (HandleDragStart p # evs) w)) =
        drag_ref_of (lookup env w (point_id (heap w p)))"
    using s by (cases ?r) simp_all
  have "dragPointMarker (after env evs (state_of ?r)) = dragPointMarker (state_of ?r)"
    by (rule after_no_boundary[OF nb])
  then show "dragPointMarker (after env (HandleDragStart p # evs) w) =
        drag_ref_of (lookup env w (point_id (heap w p)))"
    using s by simp
next
  assume "run env (evs @ [HandleDragEnd p]) w = Returned w'"
  then obtain w1 where "dispatch env (HandleDragEnd p) w1 = Returned w'"
    by (auto simp: run_append split: result.splits)
  then show "dragPointMarker w' = Null"
    using dispatch_drag[of env "HandleDragEnd p" w1] by simp
next
  show "dragPointMarker (after env (evs @ [HandleDragEnd p]) w) = Null"
    using dispatch_drag[of env "HandleDragEnd p" "after env evs w"] by (simp add: after_append)
qed

text \<open>Evaluating the scene.\<close>

lemma scene_drag_start:
  "onPointHandleDragStart (scene_env 0 6 0) scene_shown 0 =
     Returned (scene_shown\<lparr>dragPointMarker := Marker 0, emitted := [(Points_dragstart, 0)]\<rparr>)"
  by (simp add: scene_defs op_defs)

lemma scene_drag_move:
  "onPointHandleDragMove (scene_env 0 6 0)
     (scene_shown\<lparr>dragPointMarker := Marker 0, emitted := [(Points_dragstart, 0)]\<rparr>) 0 =
   Returned (scene_shown\<lparr>dragPointMarker := Marker 0,
          pointMarkers := [(''a'', (scene_marker 0 0 14)\<lparr>timeLabel := Some (7 / 5)\<rparr>),
                           (''b'', scene_marker 1 1 50)],
          heap := scene_heap(0 := (scene_heap 0)\<lparr>time := 7 / 5\<rparr>),
          emitted := [(Points_dragstart, 0), (Points_dragmove, 0)]\<rparr>)"
  by (simp add: scene_defs op_defs)

theorem drag_session_single_reference_witness:
  "(\<exists>w'. run (scene_env 0 6 0) [HandleDragStart 0, HandleDragMove 0, PointsDrag 1] scene_shown =
          Returned w' \<and> dragPointMarker w' = Marker 0)
 \<and> (\<exists>w'. run (scene_env 0 6 0) [HandleDragStart 0, HandleDragMove 0, HandleDragEnd 0] scene_shown =
          Returned w' \<and> dragPointMarker w' = Null)
 \<and> dragPointMarker (state_of (updatePoints (scene_env 0 6 0)
       (scene_shown\<lparr>dragPointMarker := Marker 0\<rparr>) 0 6)) = Marker 0"
proof -
  let ?E = "scene_env 0 6 0"
  let ?w1 = "scene_shown\<lparr>dragPointMarker := Marker 0,
          pointMarkers := [(''a'', (scene_marker 0 0 14)\<lparr>timeLabel := Some (7 / 5)\<rparr>),
                           (''b'', scene_marker 1 1 50)],
          heap := scene_heap(0 := (scene_heap 0)\<lparr>time := 7 / 5\<rparr>),
          emitted := [(Points_dragstart, 0), (Points_dragmove, 0)]\<rparr>"
  have w1: "run ?E [HandleDragStart 0, HandleDragMove 0] scene_shown = Returned ?w1"
    by (simp add: scene_drag_start scene_drag_move)
  obtain w2 where d2: "onPointsDrag ?E ?w1 1 = Returned w2"
    by (simp add: scene_defs op_defs)
  obtain w3 where d3: "onPointHandleDragEnd ?E ?w1 0 = Returned w3"
    by (simp add: scene_defs op_defs)
  have r1: "run ?E (HandleDragStart 0 # [HandleDragMove 0, PointsDrag 1]) scene_shown = Returned w2"
    using w1 d2 by (simp add: scene_drag_start scene_drag_move)
  have r2: "run ?E ([HandleDragStart 0, HandleDragMove 0] @ [HandleDragEnd 0]) scene_shown =
      Returned w3"
    using w1 d3 by (simp add: scene_drag_start scene_drag_move)
  have nb: "\<forall>ev \<in> set [HandleDragMove 0, PointsDrag 1]. \<not> drag_boundary ev" by simp
  have m: "drag_ref_of (lookup ?E scene_shown (point_id (heap scene_shown 0))) = Marker 0"
    by (simp add: scene_defs lookup_def)
  have 1: "dragPointMarker w2 = Marker 0"
    using drag_session_single_reference[where env = ?E and w = scene_shown
        and evs = "[HandleDragMove 0, PointsDrag 1]" and p = 0]
      nb m unfolding r1 by simp
  have 2: "dragPointMarker w3 = Null"
    using drag_session_single_reference[where env = ?E and w = scene_shown
        and evs = "[HandleDragStart 0, HandleDragMove 0]" and p = 0 and w' = w3] r2
    by blast
  have 3: "dragPointMarker (state_of (updatePoints ?E (scene_shown\<lparr>dragPointMarker := Marker 0\<rparr>) 0 6)) =
      Marker 0"
    using drag_session_single_reference[where env = ?E and ev = "UpdatePoints 0 6"
        and w = "scene_shown\<lparr>dragPointMarker := Marker 0\<rparr>"]
    by simp
  show ?thesis using r1 r2 1 2 3 by simp
qed

section \<open>Dragging\<close>

lemma emit_heap: "heap (state_of (emit env tp p w)) = heap w"
  by (simp add: emit_def onPointsDrag_def updatePoint_heap Let_def)

lemma emit_emitted: "emitted (state_of (emit env tp p w)) = emitted w @ [(tp, p)]"
  by (simp add: emit_def onPointsDrag_def updatePoint_frame Let_def)

lemma emit_held:
  assumes "lookup env w (point_id (heap w p)) = Held t pm"
  shows "\<exists>w' v. emit env tp p w = Returned w'
     \<and> lookup env w' (point_id (heap w p)) = Held t (pm\<lparr>getX := v\<rparr>)"
proof (cases "tp = Points_dragstart \<or> tp = Points_dragmove \<or> tp = Points_dragend")
  case True
  let ?w1 = "w\<lparr>emitted := emitted w @ [(tp, p)]\<rparr>"
  have l1: "lookup env ?w1 (point_id (heap ?w1 p)) = Held t pm"
    using assms by (simp add: lookup_cong[of ?w1 w])
  have "lookup env (setX t (markerX env (heap ?w1 p)) ?w1) (point_id (heap ?w1 p)) =
        Held t (pm\<lparr>getX := markerX env (heap ?w1 p)\<rparr>)"
    unfolding setX_def by (rule modifyMarker_lookup_same[OF l1])
  then show ?thesis
    using True updatePoint_held[OF l1] by (auto simp: emit_def onPointsDrag_def Let_def)
next
  case False
  let ?w1 = "w\<lparr>emitted := emitted w @ [(tp, p)]\<rparr>"
  have "pm\<lparr>getX := getX pm\<rparr> = pm" by simp
  then have "lookup env ?w1 (point_id (heap w p)) = Held t (pm\<lparr>getX := getX pm\<rparr>)"
    using assms by (simp add: lookup_cong[of ?w1 w])
  then show ?thesis using False unfolding emit_def Let_def
    by (intro exI[of _ ?w1] exI[of _ "getX pm"]) simp
qed

lemma onPointHandleDragMove_effect:
  assumes "lookup env w (point_id (heap w p)) = Held t pm"
  shows "\<exists>w' v. onPointHandleDragMove env w p = Returned w'
      \<and> heap w' = (heap w)(p := (heap w p)\<lparr>time := pixelOffsetToTime (view env) (getX pm + getWidth pm)\<rparr>)
      \<and> lookup env w' (point_id (heap w p)) =
          Held t (pm\<lparr>timeLabel := Some (pixelOffsetToTime (view env) (getX pm + getWidth pm)),
                     getX := v\<rparr>)
      \<and> emitted w' = emitted w @ [(Points_dragmove, p)]
      \<and> dragPointMarker w' = dragPointMarker w"
proof -
  let ?t = "pixelOffsetToTime (view env) (getX pm + getWidth pm)"
  let ?k = "point_id (heap w p)"
  let ?w1 = "setTime p ?t w"
  let ?w2 = "timeUpdated t ?t ?w1"
  have l1: "lookup env ?w1 ?k = Held t pm"
    using assms by (simp add: lookup_cong[of ?w1 w] setTime_frame)
  have h2: "heap ?w2 = (heap w)(p := (heap w p)\<lparr>time := ?t\<rparr>)"
    by (simp add: timeUpdated_frame setTime_frame)
  have k2: "point_id (heap ?w2 p) = ?k" by (simp add: h2)
  have "lookup env ?w2 ?k = Held t (pm\<lparr>timeLabel := Some ?t\<rparr>)"
    unfolding timeUpdated_def by (rule modifyMarker_lookup_same[OF l1])
  then have l2: "lookup env ?w2 (point_id (heap ?w2 p)) = Held t (pm\<lparr>timeLabel := Some ?t\<rparr>)"
    by (simp only: k2)
  from emit_held[OF l2, of Points_dragmove] obtain w' v where
    e: "emit env Points_dragmove p ?w2 = Returned w'"
    and l': "lookup env w' ?k = Held t (pm\<lparr>timeLabel := Some ?t, getX := v\<rparr>)"
    unfolding k2 by auto
  have r: "onPointHandleDragMove env w p = Returned w'"
    using assms e by (simp add: onPointHandleDragMove_def Let_def setTime_frame)
  have "heap w' = heap ?w2" "emitted w' = emitted ?w2 @ [(Points_dragmove, p)]"
    "dragPointMarker w' = dragPointMarker ?w2"
    using emit_heap[of env Points_dragmove p ?w2] emit_emitted[of env Points_dragmove p ?w2]
      emit_drag[of env Points_dragmove p ?w2] e by simp_all
  then show ?thesis using r l' h2
    by (intro exI[of _ w'] exI[of _ v]) (simp add: timeUpdated_frame setTime_frame)
qed

lemma clamp_inside: "lo \<le> v \<Longrightarrow> v \<le> hi \<Longrightarrow> clamp v lo hi = v"
  by (simp add: clamp_def)

lemma clamp_range: "lo \<le> hi \<Longrightarrow> lo \<le> clamp v lo hi \<and> clamp v lo hi \<le> hi"
  by (auto simp: clamp_def)

text \<open>
  The whole gesture: a drag-start, the pointer moved to \<open>(x, y)\<close>, a drag-move and a
  drag-end.
\<close>

lemma drag_gesture:
  assumes "lookup env w (point_id (heap w p)) = Held t pm"
  shows "\<exists>w1 w2 w3 w4 pm'.
        onPointHandleDragStart env w p = Returned w1
      \<and> konvaDragTo env p (x, y) w1 = Returned w2
      \<and> onPointHandleDragMove env w2 p = Returned w3
      \<and> onPointHandleDragEnd env w3 p = Returned w4
      \<and> heap w4 = (heap w)(p := (heap w p)\<lparr>time :=
           pixelOffsetToTime (view env) (clamp x 0 (getWidth_view (view env)) + getWidth pm)\<rparr>)
      \<and> lookup env w4 (point_id (heap w p)) = Held t pm'
      \<and> timeLabel pm' =
           Some (pixelOffsetToTime (view env) (clamp x 0 (getWidth_view (view env)) + getWidth pm))
      \<and> dragPointMarker w4 = Null"
proof -
  let ?k = "point_id (heap w p)"
  let ?c = "clamp x 0 (getWidth_view (view env))"
  let ?t = "pixelOffsetToTime (view env) (?c + getWidth pm)"
  let ?w0 = "w\<lparr>dragPointMarker := Marker (uid pm)\<rparr>"
  have l0: "lookup env ?w0 (point_id (heap ?w0 p)) = Held t pm"
    using assms by (simp add: lookup_cong[of ?w0 w])
  from emit_held[OF l0, of Points_dragstart] obtain w1 v1 where
    e1: "emit env Points_dragstart p ?w0 = Returned w1"
    and l1: "lookup env w1 ?k = Held t (pm\<lparr>getX := v1\<rparr>)"
    by auto
  have s1: "onPointHandleDragStart env w p = Returned w1"
    using assms e1 by (simp add: onPointHandleDragStart_def)
  have h1: "heap w1 = heap w" and d1: "dragPointMarker w1 = Marker (uid pm)"
    using emit_heap[of env Points_dragstart p ?w0] emit_drag[of env Points_dragstart p ?w0] e1
    by simp_all
  let ?w2 = "setX t ?c w1"
  have s2: "konvaDragTo env p (x, y) w1 = Returned ?w2"
    using l1 d1 h1 by (simp add: konvaDragTo_def pointHandleDragBoundFunc_def)
  have h2: "heap ?w2 = heap w" by (simp add: setX_frame h1)
  have "lookup env ?w2 ?k = Held t (pm\<lparr>getX := v1, getX := ?c\<rparr>)"
    unfolding setX_def by (rule modifyMarker_lookup_same[OF l1])
  then have l2: "lookup env ?w2 (point_id (heap ?w2 p)) = Held t (pm\<lparr>getX := v1, getX := ?c\<rparr>)"
    by (simp only: h2)
  from onPointHandleDragMove_effect[OF l2] obtain w3 v3 where
    s3: "onPointHandleDragMove env ?w2 p = Returned w3"
    and h3: "heap w3 = (heap w)(p := (heap w p)\<lparr>time := ?t\<rparr>)"
    and l3: "lookup env w3 ?k = Held t (pm\<lparr>timeLabel := Some ?t, getX := v3\<rparr>)"
    by (auto simp: h2)
  let ?w3' = "w3\<lparr>dragPointMarker := Null\<rparr>"
  have k3: "point_id (heap ?w3' p) = ?k" by (simp add: h3)
  have l3': "lookup env ?w3' (point_id (heap ?w3' p)) = Held t (pm\<lparr>timeLabel := Some ?t, getX := v3\<rparr>)"
    unfolding k3 using l3 by (simp add: lookup_cong[of ?w3' w3])
  from emit_held[OF l3', of Points_dragend] obtain w4 v4 where
    e4: "emit env Points_dragend p ?w3' = Returned w4"
    and l4: "lookup env w4 ?k = Held t (pm\<lparr>timeLabel := Some ?t, getX := v4\<rparr>)"
    unfolding k3 by auto
  have s4: "onPointHandleDragEnd env w3 p = Returned w4"
    using e4 by (simp add: onPointHandleDragEnd_def)
  have h4: "heap w4 = heap w3" and d4: "dragPointMarker w4 = Null"
    using emit_heap[of env Points_dragend p ?w3'] emit_drag[of env Points_dragend p ?w3'] e4
    by simp_all
  show ?thesis
    using s1 s2 s3 s4 h4 h3 l4 d4
    by (intro exI[of _ w1] exI[of _ ?w2] exI[of _ w3] exI[of _ w4]
        exI[of _ "pm\<lparr>timeLabel := Some ?t, getX := v4\<rparr>"]) simp
qed

text \<open>
  C4 as stated fails when the pointer leaves the view. In the scene that shows \<open>a\<close>
  and \<open>b\<close>, a drag of the marker of \<open>a\<close> (4 pixels wide) to the pointer position
  \<open>x = -30\<close> goes through \<open>_pointHandleDragBoundFunc\<close>, which clamps the position to
  0: the drag leaves \<open>point.time\<close> at \<open>pixelOffsetToTime(0 + 4) = 2/5\<close>, whereas
  \<open>pixelOffsetToTime(x + markerWidth)\<close> is \<open>-13/5\<close>.
\<close>

theorem drag_outside_view_counterexample:
  "lookup (scene_env 0 6 0) scene_shown (point_id (heap scene_shown 0)) =
     Held (OwnKey ''a'') (scene_marker 0 0 10)
 \<and> getWidth (scene_marker 0 0 10) = 4
 \<and> onPointHandleDragStart (scene_env 0 6 0) scene_shown 0 =
     Returned (scene_shown\<lparr>dragPointMarker := Marker 0, emitted := [(Points_dragstart, 0)]\<rparr>)
 \<and> pointHandleDragBoundFunc (scene_env 0 6 0)
       (scene_shown\<lparr>dragPointMarker := Marker 0, emitted := [(Points_dragstart, 0)]\<rparr>) (- 30, 7) =
     Returned (0, 0)
 \<and> konvaDragTo (scene_env 0 6 0) 0 (- 30, 7)
       (scene_shown\<lparr>dragPointMarker := Marker 0, emitted := [(Points_dragstart, 0)]\<rparr>) =
     Returned (scene_shown\<lparr>dragPointMarker := Marker 0, emitted := [(Points_dragstart, 0)],
        pointMarkers := [(''a'', scene_marker 0 0 0), (''b'', scene_marker 1 1 50)]\<rparr>)
 \<and> time (heap (state_of (onPointHandleDragMove (scene_env 0 6 0)
       (scene_shown\<lparr>dragPointMarker := Marker 0, emitted := [(Points_dragstart, 0)],
          pointMarkers := [(''a'', scene_marker 0 0 0), (''b'', scene_marker 1 1 50)]\<rparr>) 0)) 0) =
     2 / 5
 \<and> time (heap (state_of (onPointHandleDragEnd (scene_env 0 6 0)
       (state_of (onPointHandleDragMove (scene_env 0 6 0)
          (scene_shown\<lparr>dragPointMarker := Marker 0, emitted := [(Points_dragstart, 0)],
             pointMarkers := [(''a'', scene_marker 0 0 0), (''b'', scene_marker 1 1 50)]\<rparr>) 0))
       0)) 0) = 2 / 5
 \<and> pixelOffsetToTime (view (scene_env 0 6 0)) (- 30 + getWidth (scene_marker 0 0 10)) = - 13 / 5"
  by (simp add: scene_defs op_defs)

text \<open>
  C4, amended. When the lookup of the dragged point's id gives a marker, the drag-move
  handler returns normally, writes \<open>pixelOffsetToTime(markerX + markerWidth)\<close> to
  \<open>point.time\<close> and to nothing else on the heap, sets the marker's time label to the
  new time and emits \<open>points.dragmove\<close>. Consequently a drag-start, the pointer moved
  to \<open>(x, y)\<close>, a drag-move and a drag-end all return and leave \<open>point.time\<close> equal to
  \<open>pixelOffsetToTime(clamp(x, 0, viewWidth) + markerWidth)\<close>, which is
  \<open>pixelOffsetToTime(x + markerWidth)\<close> when \<open>x\<close> lies within the view, with the
  marker's label showing that time and the drag session cleared.
\<close>

theorem onPointHandleDragMove_sets_time:
  "lookup env w (point_id (heap w p)) = Held t pm \<longrightarrow>
   (\<exists>w'. onPointHandleDragMove env w p = Returned w'
      \<and> time (heap w' p) = pixelOffsetToTime (view env) (getX pm + getWidth pm)
      \<and> heap w' = (heap w)(p := (heap w p)\<lparr>time := pixelOffsetToTime (view env) (getX pm + getWidth pm)\<rparr>)
      \<and> (\<exists>pm'. lookup env w' (point_id (heap w p)) = Held t pm'
             \<and> timeLabel pm' = Some (time (heap w' p)))
      \<and> emitted w' = emitted w @ [(Points_dragmove, p)])
 \<and> (\<exists>w1 w2 w3 w4.
        onPointHandleDragStart env w p = Returned w1
      \<and> konvaDragTo env p (x, y) w1 = Returned w2
      \<and> onPointHandleDragMove env w2 p = Returned w3
      \<and> onPointHandleDragEnd env w3 p = Returned w4
      \<and> time (heap w4 p) =
          pixelOffsetToTime (view env) (clamp x 0 (getWidth_view (view env)) + getWidth pm)
      \<and> (0 \<le> x \<and> x \<le> getWidth_view (view env) \<longrightarrow>
          time (heap w4 p) = pixelOffsetToTime (view env) (x + getWidth pm))
      \<and> (\<exists>pm'. lookup env w4 (point_id (heap w p)) = Held t pm'
             \<and> timeLabel pm' = Some (time (heap w4 p)))
      \<and> dragPointMarker w4 = Null)"
proof (intro impI conjI)
  assume pm: "lookup env w (point_id (heap w p)) = Held t pm"
  from onPointHandleDragMove_effect[OF pm]
  show "\<exists>w'. onPointHandleDragMove env w p = Returned w'
      \<and> time (heap w' p) = pixelOffsetToTime (view env) (getX pm + getWidth pm)
      \<and> heap w' = (heap w)(p := (heap w p)\<lparr>time := pixelOffsetToTime (view env) (getX pm + getWidth pm)\<rparr>)
      \<and> (\<exists>pm'. lookup env w' (point_id (heap w p)) = Held t pm'
             \<and> timeLabel pm' = Some (time (heap w' p)))
      \<and> emitted w' = emitted w @ [(Points_dragmove, p)]"
    by auto
next
  assume pm: "lookup env w (point_id (heap w p)) = Held t pm"
  let ?t = "pixelOffsetToTime (view env) (clamp x 0 (getWidth_view (view env)) + getWidth pm)"
  from drag_gesture[OF pm, of x y] obtain w1 w2 w3 w4 pm' where
    s: "onPointHandleDragStart env w p = Returned w1" "konvaDragTo env p (x, y) w1 = Returned w2"
      "onPointHandleDragMove env w2 p = Returned w3" "onPointHandleDragEnd env w3 p = Returned w4"
    and h4: "heap w4 = (heap w)(p := (heap w p)\<lparr>time := ?t\<rparr>)"
    and l4: "lookup env w4 (point_id (heap w p)) = Held t pm'" "timeLabel pm' = Some ?t"
    and d4: "dragPointMarker w4 = Null"
    by blast
  have t4: "time (heap w4 p) = ?t" by (simp add: h4)
  have "time (heap w4 p) = pixelOffsetToTime (view env) (x + getWidth pm)"
    if "0 \<le> x \<and> x \<le> getWidth_view (view env)"
    using that t4 by (simp add: clamp_inside)
  then show "\<exists>w1 w2 w3 w4.
        onPointHandleDragStart env w p = Returned w1
      \<and> konvaDragTo env p (x, y) w1 = Returned w2
      \<and> onPointHandleDragMove env w2 p = Returned w3
      \<and> onPointHandleDragEnd env w3 p = Returned w4
      \<and> time (heap w4 p) = ?t
      \<and> (0 \<le> x \<and> x \<le> getWidth_view (view env) \<longrightarrow>
          time (heap w4 p) = pixelOffsetToTime (view env) (x + getWidth pm))
      \<and> (\<exists>pm'. lookup env w4 (point_id (heap w p)) = Held t pm'
             \<and> timeLabel pm' = Some (time (heap w4 p)))
      \<and> dragPointMarker w4 = Null"
    using s t4 l4 d4 by (intro exI[of _ w1] exI[of _ w2] exI[of _ w3] exI[of _ w4]) auto
qed

theorem onPointHandleDragMove_sets_time_witness:
  "(\<exists>w'. onPointHandleDragMove (scene_env 0 6 0) scene_shown 0 = Returned w'
      \<and> time (heap w' 0) = 7 / 5
      \<and> (\<exists>pm'. lookup (scene_env 0 6 0) w' ''a'' = Held (OwnKey ''a'') pm'
             \<and> timeLabel pm' = Some (time (heap w' 0)))
      \<and> emitted w' = [(Points_dragmove, 0)])
 \<and> (\<exists>w1 w2 w3 w4.
        onPointHandleDragStart (scene_env 0 6 0) scene_shown 0 = Returned w1
      \<and> konvaDragTo (scene_env 0 6 0) 0 (26, 7) w1 = Returned w2
      \<and> onPointHandleDragMove (scene_env 0 6 0) w2 0 = Returned w3
      \<and> onPointHandleDragEnd (scene_env 0 6 0) w3 0 = Returned w4
      \<and> time (heap w4 0) = 3
      \<and> (\<exists>pm'. lookup (scene_env 0 6 0) w4 ''a'' = Held (OwnKey ''a'') pm'
             \<and> timeLabel pm' = Some 3)
      \<and> dragPointMarker w4 = Null)"
proof -
  have m: "lookup (scene_env 0 6 0) scene_shown (point_id (heap scene_shown 0)) =
      Held (OwnKey ''a'') (scene_marker 0 0 10)"
    by (simp add: scene_defs lookup_def)
  have v: "point_id (heap scene_shown 0) = ''a''" "emitted scene_shown = []"
    "pixelOffsetToTime (view (scene_env 0 6 0))
       (getX (scene_marker 0 0 10) + getWidth (scene_marker 0 0 10)) = 7 / 5"
    "pixelOffsetToTime (view (scene_env 0 6 0))
       (clamp 26 0 (getWidth_view (view (scene_env 0 6 0))) + getWidth (scene_marker 0 0 10)) = 3"
    "pixelOffsetToTime (view (scene_env 0 6 0)) (26 + getWidth (scene_marker 0 0 10)) = 3"
    "(0::real) \<le> 26 \<and> 26 \<le> getWidth_view (view (scene_env 0 6 0))"
    by (simp_all add: scene_defs clamp_def)
  note ab = onPointHandleDragMove_sets_time[of "scene_env 0 6 0" scene_shown 0 "OwnKey ''a''"
      "scene_marker 0 0 10" 26 7, THEN mp, OF m]
  from ab[THEN conjunct1] obtain w' where
    a0: "onPointHandleDragMove (scene_env 0 6 0) scene_shown 0 = Returned w'
      \<and> time (heap w' 0) = pixelOffsetToTime (view (scene_env 0 6 0))
            (getX (scene_marker 0 0 10) + getWidth (scene_marker 0 0 10))
      \<and> heap w' = (heap scene_shown)(0 := (heap scene_shown 0)\<lparr>time :=
            pixelOffsetToTime (view (scene_env 0 6 0))
              (getX (scene_marker 0 0 10) + getWidth (scene_marker 0 0 10))\<rparr>)
      \<and> (\<exists>pm'. lookup (scene_env 0 6 0) w' (point_id (heap scene_shown 0)) = Held (OwnKey ''a'') pm'
             \<and> timeLabel pm' = Some (time (heap w' 0)))
      \<and> emitted w' = emitted scene_shown @ [(Points_dragmove, 0)]"
    by (rule exE)
  have a': "onPointHandleDragMove (scene_env 0 6 0) scene_shown 0 = Returned w'"
    "time (heap w' 0) = 7 / 5"
    "\<exists>pm'. lookup (scene_env 0 6 0) w' ''a'' = Held (OwnKey ''a'') pm'
             \<and> timeLabel pm' = Some (time (heap w' 0))"
    "emitted w' = [(Points_dragmove, 0)]"
    using a0 unfolding v by auto
  from ab[THEN conjunct2] obtain w1 w2 w3 w4 where
    b0: "onPointHandleDragStart (scene_env 0 6 0) scene_shown 0 = Returned w1
      \<and> konvaDragTo (scene_env 0 6 0) 0 (26, 7) w1 = Returned w2
      \<and> onPointHandleDragMove (scene_env 0 6 0) w2 0 = Returned w3
      \<and> onPointHandleDragEnd (scene_env 0 6 0) w3 0 = Returned w4
      \<and> time (heap w4 0) = pixelOffsetToTime (view (scene_env 0 6 0))
            (clamp 26 0 (getWidth_view (view (scene_env 0 6 0))) + getWidth (scene_marker 0 0 10))
      \<and> ((0::real) \<le> 26 \<and> 26 \<le> getWidth_view (view (scene_env 0 6 0)) \<longrightarrow>
          time (heap w4 0) = pixelOffsetToTime (view (scene_env 0 6 0))
            (26 + getWidth (scene_marker 0 0 10)))
      \<and> (\<exists>pm'. lookup (scene_env 0 6 0) w4 (point_id (heap scene_shown 0)) = Held (OwnKey ''a'') pm'
             \<and> timeLabel pm' = Some (time (heap w4 0)))
      \<and> dragPointMarker w4 = Null"
    by (elim exE)
  have b': "onPointHandleDragStart (scene_env 0 6 0) scene_shown 0 = Returned w1"
    "konvaDragTo (scene_env 0 6 0) 0 (26, 7) w1 = Returned w2"
    "onPointHandleDragMove (scene_env 0 6 0) w2 0 = Returned w3"
    "onPointHandleDragEnd (scene_env 0 6 0) w3 0 = Returned w4"
    "time (heap w4 0) = 3"
    "\<exists>pm'. lookup (scene_env 0 6 0) w4 ''a'' = Held (OwnKey ''a'') pm'
             \<and> timeLabel pm' = Some (time (heap w4 0))"
    "dragPointMarker w4 = Null"
    using b0 unfolding v by auto
  have 1: "\<exists>w'. onPointHandleDragMove (scene_env 0 6 0) scene_shown 0 = Returned w'
      \<and> time (heap w' 0) = 7 / 5
      \<and> (\<exists>pm'. lookup (scene_env 0 6 0) w' ''a'' = Held (OwnKey ''a'') pm'
             \<and> timeLabel pm' = Some (time (heap w' 0)))
      \<and> emitted w' = [(Points_dragmove, 0)]"
    using a' by (intro exI[of _ w']) simp
  have 2: "\<exists>w1 w2 w3 w4.
        onPointHandleDragStart (scene_env 0 6 0) scene_shown 0 = Returned w1
      \<and> konvaDragTo (scene_env 0 6 0) 0 (26, 7) w1 = Returned w2
      \<and> onPointHandleDragMove (scene_env 0 6 0) w2 0 = Returned w3
      \<and> onPointHandleDragEnd (scene_env 0 6 0) w3 0 = Returned w4
      \<and> time (heap w4 0) = 3
      \<and> (\<exists>pm'. lookup (scene_env 0 6 0) w4 ''a'' = Held (OwnKey ''a'') pm'
             \<and> timeLabel pm' = Some 3)
      \<and> dragPointMarker w4 = Null"
    using b' by (intro exI[of _ w1] exI[of _ w2] exI[of _ w3] exI[of _ w4]) simp
  show ?thesis using 1 2 by (rule conjI)
qed

section \<open>Drag notifications from the event bus\<close>

text \<open>
  When the lookup of the point's id gives a marker or a falsy value, a drag
  notification returns and leaves the point positioned; in the second case a new
  marker of the point has been constructed, registered under the point's id and
  attached to the layer, whether or not the point is visible.
\<close>

lemma onPointsDrag_effect:
  assumes "lookup env w (point_id (heap w p)) \<noteq> Inherited True"
  shows "\<exists>w'. onPointsDrag env w p = Returned w' \<and> heap w' = heap w \<and> positioned env w' p
     \<and> (\<not> truthy (lookup env w (point_id (heap w p))) \<longrightarrow>
          constructed w' = Suc (constructed w) \<and> layer w' = layer w @ [constructed w]
        \<and> (\<exists>pm. lookup env w' (point_id (heap w p)) = Held (OwnKey (point_id (heap w p))) pm
              \<and> getPoint pm = p \<and> uid pm = constructed w))
     \<and> (truthy (lookup env w (point_id (heap w p))) \<longrightarrow>
          constructed w' = constructed w \<and> layer w' = layer w)"
proof (cases "lookup env w (point_id (heap w p))" rule: slot_cases)
  case (held t pm)
  let ?w' = "setX t (markerX env (heap w p)) w"
  have r: "updatePoint env w p = Returned ?w'" by (rule updatePoint_held[OF held])
  have "positioned env ?w' p" by (rule updatePoint_positions[OF r])
  then show ?thesis using r held by (simp add: onPointsDrag_def setX_frame)
next
  case foreign
  then show ?thesis using assms by simp
next
  case falsy
  let ?k = "point_id (heap w p)"
  let ?w1 = "snd (addPointMarker env w p)"
  let ?w' = "setX (OwnKey ?k) (markerX env (heap w p)) ?w1"
  have k: "?k \<noteq> ''__proto__''" by (rule falsy_not_proto_name[OF falsy])
  have r: "updatePoint env w p = Returned ?w'" by (rule updatePoint_new[OF falsy])
  have pos: "positioned env ?w' p" by (rule updatePoint_positions[OF r])
  have l1: "lookup env ?w1 ?k = Held (OwnKey ?k) (fst (createPointMarker env w p))"
    by (rule addPointMarker_lookup[OF k])
  have "lookup env ?w' ?k =
      Held (OwnKey ?k) ((fst (createPointMarker env w p))\<lparr>getX := markerX env (heap w p)\<rparr>)"
    unfolding setX_def by (rule modifyMarker_lookup_same[OF l1])
  then show ?thesis using r pos falsy
    by (simp add: onPointsDrag_def setX_frame addPointMarker_frame createPointMarker_fields)
qed

text \<open>
  C10. In the scene that shows \<open>a\<close> and \<open>b\<close>, reached by adding the points of the
  store that also holds the point \<open>constructor\<close> at 7 s, that point has no
  registered marker. A \<open>points.dragstart\<close>, \<open>points.dragmove\<close> or \<open>points.dragend\<close>
  notification for it creates none: \<open>_findOrAddPointMarker\<close> returns the inherited
  \<open>Object.prototype.constructor\<close> and \<open>setX\<close> throws, leaving the layer as it was.
  For the point \<open>c\<close>, which is outside the window as well, the same notification
  constructs a marker and puts it at 90.
\<close>

theorem onPointsDrag_inherited_id_creates_no_marker:
  "run (scene_env_ctor 0) [PointsAdd [3, 0, 1, 2]] scene_empty = Returned scene_shown
 \<and> point_id (heap scene_shown 3) = ''constructor''
 \<and> map_of (pointMarkers scene_shown) (point_id (heap scene_shown 3)) = None
 \<and> fst (findOrAddPointMarker (scene_env_ctor 0) scene_shown 3) = Inherited True
 \<and> onPointsDrag (scene_env_ctor 0) scene_shown 3 = Threw TypeError scene_shown
 \<and> dispatch (scene_env_ctor 0) (PointsDrag 3) scene_shown = Threw TypeError scene_shown
 \<and> constructed scene_shown = 2
 \<and> onPointsDrag (scene_env_ctor 0) scene_shown 2 =
     Returned (scene_shown\<lparr>pointMarkers :=
                 [(''a'', scene_marker 0 0 10), (''b'', scene_marker 1 1 50),
                  (''c'', scene_marker 2 2 90)],
               layer := [0, 1, 2], constructed := 3\<rparr>)"
proof -
  have 1: "onPointsDrag (scene_env_ctor 0) scene_shown 3 = Threw TypeError scene_shown"
    "fst (findOrAddPointMarker (scene_env_ctor 0) scene_shown 3) = Inherited True"
    "onPointsDrag (scene_env_ctor 0) scene_shown 2 =
     Returned (scene_shown\<lparr>pointMarkers :=
                 [(''a'', scene_marker 0 0 10), (''b'', scene_marker 1 1 50),
                  (''c'', scene_marker 2 2 90)],
               layer := [0, 1, 2], constructed := 3\<rparr>)"
    by (simp_all add: scene_defs ctor_defs op_defs)
  have 2: "dispatch (scene_env_ctor 0) (PointsDrag 3) scene_shown = Threw TypeError scene_shown"
    by (simp add: 1)
  show ?thesis unfolding 1 2 using scene_shown_reached_ctor by (simp add: scene_defs)
qed

section \<open>Reconciling one point\<close>

text \<open>
  When the lookup of the point's id gives a falsy value, \<open>_removePoint\<close> does nothing
  and a \<open>points.update\<close> notification is handled as the insertion of the point.
\<close>

lemma onPointsUpdate_absent:
  "\<not> truthy (lookup env w (point_id (heap w p))) \<Longrightarrow>
   onPointsUpdate env w p = onPointsAdd env w [p]"
  by (simp add: onPointsUpdate_def onPointsAdd_def removePoint_falsy Let_def)

text \<open>
  With a marker registered under the point's id, the notification destroys and
  detaches that marker, registers a newly built one exactly when the point is
  visible, and then runs \<open>updatePoints\<close> over the view's window.
\<close>

lemma onPointsUpdate_own:
  assumes "map_of (pointMarkers w) (point_id (heap w p)) = Some pm"
  shows "onPointsUpdate env w p =
     updatePoints env
       (let w1 = (destroy pm w)\<lparr>pointMarkers :=
                   AList.delete (point_id (heap w p)) (pointMarkers w)\<rparr>
        in if isVisible env (heap w p) (getStartTime (view env)) (getEndTime (view env))
           then snd (addPointMarker env w1 p) else w1)
       (getStartTime (view env)) (getEndTime (view env))"
  by (simp add: onPointsUpdate_def removePoint_own[OF assms] Let_def destroy_frame)

text \<open>
  C6. In the scene that shows \<open>a\<close> and \<open>b\<close>, the point \<open>constructor\<close> of the store
  is not in the registry. Its time is changed from 7 s to 2 s, which makes it visible
  in the window \<open>[0, 6)\<close>, and the \<open>points.update\<close> notification arrives. The handler
  throws in its first step, where \<open>_removePoint\<close> calls \<open>destroy()\<close> on the inherited
  \<open>Object.prototype.constructor\<close>: no marker is created for the visible point and no
  reposition pass runs. The insertion of the same point in the same state returns
  and registers a marker for it at 20.
\<close>

theorem onPointsUpdate_inherited_id_throws:
  "run (scene_env_ctor 0) [PointsAdd [3, 0, 1, 2]] scene_empty = Returned scene_shown
 \<and> point_id (heap (setTime 3 2 scene_shown) 3) = ''constructor''
 \<and> isVisible (scene_env_ctor 0) (heap (setTime 3 2 scene_shown) 3)
      (getStartTime (view (scene_env_ctor 0))) (getEndTime (view (scene_env_ctor 0)))
 \<and> map_of (pointMarkers (setTime 3 2 scene_shown)) ''constructor'' = None
 \<and> removePoint (scene_env_ctor 0) (setTime 3 2 scene_shown) 3 =
     Threw TypeError (setTime 3 2 scene_shown)
 \<and> onPointsUpdate (scene_env_ctor 0) (setTime 3 2 scene_shown) 3 =
     Threw TypeError (setTime 3 2 scene_shown)
 \<and> dispatch (scene_env_ctor 0) (PointsUpdate 3) (setTime 3 2 scene_shown) =
     Threw TypeError (setTime 3 2 scene_shown)
 \<and> onPointsAdd (scene_env_ctor 0) (setTime 3 2 scene_shown) [3] =
     Returned ((setTime 3 2 scene_shown)\<lparr>pointMarkers :=
                 [(''a'', scene_marker 0 0 10), (''b'', scene_marker 1 1 50),
                  (''constructor'', scene_marker 2 3 20)],
               layer := [0, 1, 2], constructed := 3\<rparr>)"
proof -
  have 1: "removePoint (scene_env_ctor 0) (setTime 3 2 scene_shown) 3 =
     Threw TypeError (setTime 3 2 scene_shown)"
    by (simp add: scene_defs ctor_defs op_defs)
  have 2: "onPointsUpdate (scene_env_ctor 0) (setTime 3 2 scene_shown) 3 =
     Threw TypeError (setTime 3 2 scene_shown)"
    by (simp add: onPointsUpdate_def 1)
  have 3: "dispatch (scene_env_ctor 0) (PointsUpdate 3) (setTime 3 2 scene_shown) =
     Threw TypeError (setTime 3 2 scene_shown)"
    by (simp add: 2)
  have 4: "onPointsAdd (scene_env_ctor 0) (setTime 3 2 scene_shown) [3] =
     Returned ((setTime 3 2 scene_shown)\<lparr>pointMarkers :=
                 [(''a'', scene_marker 0 0 10), (''b'', scene_marker 1 1 50),
                  (''constructor'', scene_marker 2 3 20)],
               layer := [0, 1, 2], constructed := 3\<rparr>)"
    by (simp add: scene_defs ctor_defs op_defs onPointsAdd_def)
  have 5: "point_id (heap (setTime 3 2 scene_shown) 3) = ''constructor''"
    "isVisible (scene_env_ctor 0) (heap (setTime 3 2 scene_shown) 3)
      (getStartTime (view (scene_env_ctor 0))) (getEndTime (view (scene_env_ctor 0)))"
    "map_of (pointMarkers (setTime 3 2 scene_shown)) ''constructor'' = None"
    by (simp_all add: scene_defs ctor_defs setTime_def)
  show ?thesis using 1 2 3 4 5 scene_shown_reached_ctor by simp
qed

section \<open>The consistency conditions are invariants of the layer\<close>

lemma registry_keyed_all: "registry_keyed w = registry_all (\<lambda>k r. point_id (heap w r) = k) w"
  by (simp add: registry_keyed_def registry_all_def)

lemma markers_in_store_all: "markers_in_store w store = registry_all (\<lambda>k r. r \<in> set store) w"
  by (simp add: markers_in_store_def registry_all_def)

lemma addPointMarker_all:
  "registry_all R w \<Longrightarrow> R (point_id (heap w p)) p \<Longrightarrow>
   registry_all R (snd (addPointMarker env w p))"
  by (simp add: registry_all_def addPointMarker_registry list_all_update createPointMarker_fields)

lemma updatePoint_all:
  "registry_all R w \<Longrightarrow> R (point_id (heap w p)) p \<Longrightarrow>
   registry_all R (state_of (updatePoint env w p))"
  unfolding registry_all_def by (rule updatePoint_list_all)

lemma updateEach_all:
  "registry_all R w \<Longrightarrow> \<forall>p \<in> set ps. R (point_id (heap w p)) p \<Longrightarrow>
   registry_all R (state_of (updateEach env ps w))"
proof (induction ps arbitrary: w)
  case Nil
  then show ?case by simp
next
  case (Cons p ps)
  let ?w1 = "state_of (updatePoint env w p)"
  have a: "registry_all R ?w1" using Cons.prems by (simp add: updatePoint_all)
  have "\<forall>q \<in> set ps. R (point_id (heap ?w1 q)) q"
    using Cons.prems(2) by (simp add: updatePoint_heap)
  from Cons.IH[OF a this] a show ?case by (cases "updatePoint env w p") simp_all
qed

lemma removePoint_all: "registry_all R w \<Longrightarrow> registry_all R (state_of (removePoint env w p))"
  by (simp add: registry_all_def removePoint_registry list_all_delete)

lemma removeInvisibleLoop_all:
  "registry_all R w \<Longrightarrow>
   (case removeInvisibleLoop env s e ks w c of
      Returned (w', c') \<Rightarrow> registry_all R w' | Threw err w' \<Rightarrow> registry_all R w')"
proof (induction ks arbitrary: w c)
  case Nil
  then show ?case by simp
next
  case (Cons k ks)
  show ?case
  proof (cases "map_of (pointMarkers w) k")
    case None
    then show ?thesis using Cons.IH[OF Cons.prems, of c] by simp
  next
    case (Some pm)
    show ?thesis
    proof (cases "isVisible env (heap w (getPoint pm)) s e")
      case True
      then show ?thesis using Some Cons.IH[OF Cons.prems, of c] by simp
    next
      case False
      have a: "registry_all R (state_of (removePoint env w (getPoint pm)))"
        using Cons.prems by (rule removePoint_all)
      show ?thesis
        using Some False a Cons.IH[OF a, of "c + 1"]
        by (cases "removePoint env w (getPoint pm)") simp_all
    qed
  qed
qed

lemma removeInvisibleLoop_heap:
  "(case removeInvisibleLoop env s e ks w c of
      Returned (w', c') \<Rightarrow> heap w' | Threw err w' \<Rightarrow> heap w') = heap w"
proof (induction ks arbitrary: w c)
  case Nil
  then show ?case by simp
next
  case (Cons k ks)
  show ?case
  proof (cases "map_of (pointMarkers w) k")
    case None
    then show ?thesis using Cons.IH[of w c] by simp
  next
    case (Some pm)
    show ?thesis
    proof (cases "isVisible env (heap w (getPoint pm)) s e")
      case True
      then show ?thesis using Some Cons.IH[of w c] by simp
    next
      case False
      show ?thesis
        using Some False Cons.IH[of "state_of (removePoint env w (getPoint pm))" "c + 1"]
          removePoint_frame(1)[of env w "getPoint pm"]
        by (cases "removePoint env w (getPoint pm)") simp_all
    qed
  qed
qed

lemma updatePoints_heap: "heap (state_of (updatePoints env w s e)) = heap w"
proof (cases "updateEach env (points_find env (heap w) s e) w")
  case (Threw err w1)
  then show ?thesis
    using updateEach_heap[of env "points_find env (heap w) s e" w]
    by (simp add: updatePoints_def Let_def)
next
  case (Returned w1)
  then have h1: "heap w1 = heap w"
    using updateEach_heap[of env "points_find env (heap w) s e" w] by simp
  show ?thesis
    using Returned h1 removeInvisibleLoop_heap[of env s e "map fst (pointMarkers w1)" w1 0]
    by (cases "removeInvisibleLoop env s e (map fst (pointMarkers w1)) w1 0")
       (auto simp: updatePoints_def Let_def removeInvisiblePoints_def)
qed

lemma updatePoints_all:
  assumes "registry_all R w"
    and "\<forall>p \<in> set (points_find env (heap w) s e). R (point_id (heap w p)) p"
  shows "registry_all R (state_of (updatePoints env w s e))"
proof (cases "updateEach env (points_find env (heap w) s e) w")
  case (Threw err w1)
  then show ?thesis
    using updateEach_all[OF assms, of env] by (simp add: updatePoints_def Let_def)
next
  case (Returned w1)
  then have a: "registry_all R w1" using updateEach_all[OF assms, of env] by simp
  show ?thesis
    using Returned removeInvisibleLoop_all[OF a, of env s e "map fst (pointMarkers w1)" 0]
    by (cases "removeInvisibleLoop env s e (map fst (pointMarkers w1)) w1 0")
       (auto simp: updatePoints_def Let_def removeInvisiblePoints_def)
qed

lemma addEach_heap: "heap (addEach env s e ps w) = heap w"
  by (induction ps arbitrary: w) (simp_all add: addPointMarker_frame)

lemma addEach_all:
  "registry_all R w \<Longrightarrow> \<forall>p \<in> set ps. R (point_id (heap w p)) p \<Longrightarrow>
   registry_all R (addEach env s e ps w)"
  by (induction ps arbitrary: w) (simp_all add: addPointMarker_all addPointMarker_frame)

lemma onPointsRemove_all:
  "registry_all R w \<Longrightarrow> registry_all R (state_of (onPointsRemove env w ps))"
proof (induction ps arbitrary: w)
  case Nil
  then show ?case by simp
next
  case (Cons p ps)
  have a: "registry_all R (state_of (removePoint env w p))"
    using Cons.prems by (rule removePoint_all)
  from Cons.IH[OF a] a show ?case by (cases "removePoint env w p") simp_all
qed

lemma emit_all:
  assumes "registry_all R w" "R (point_id (heap w p)) p"
  shows "registry_all R (state_of (emit env tp p w))"
proof -
  let ?w1 = "w\<lparr>emitted := emitted w @ [(tp, p)]\<rparr>"
  have a: "registry_all R ?w1" using assms(1) by (simp add: registry_all_def)
  have "R (point_id (heap ?w1 p)) p" using assms(2) by simp
  with a have "registry_all R (state_of (updatePoint env ?w1 p))" by (rule updatePoint_all)
  then show ?thesis using a by (simp add: emit_def onPointsDrag_def Let_def)
qed

lemma timeUpdated_all: "registry_all R w \<Longrightarrow> registry_all R (timeUpdated t tm w)"
  unfolding registry_all_def timeUpdated_def by (rule modifyMarker_list_all) simp_all

lemma onPointsUpdate_heap: "heap (state_of (onPointsUpdate env w p)) = heap w"
  using removePoint_frame(1)[of env w p]
  by (cases "removePoint env w p")
     (simp_all add: onPointsUpdate_def Let_def updatePoints_heap addPointMarker_frame)

lemma onPointHandleDragMove_ids:
  "point_id (heap (state_of (onPointHandleDragMove env w p)) r) = point_id (heap w r)"
  by (cases "lookup env w (point_id (heap w p))")
     (simp_all add: onPointHandleDragMove_def Let_def emit_heap timeUpdated_frame setTime_frame)

lemma dispatch_ids:
  "point_id (heap (state_of (dispatch env ev w)) r) = point_id (heap w r)"
proof (cases ev)
  case (HandleDragBound x y)
  then show ?thesis
    by (cases "dragPointMarker w") (simp_all add: pointHandleDragBoundFunc_def)
qed (simp_all add: onPointsUpdate_heap onPointsAdd_def Let_def updatePoints_heap addEach_heap
      onPointsRemove_heap onPointsRemoveAll_def onPointsDrag_def updatePoint_heap
      onPointHandleClick_def onPointHandleDblClick_def onPointHandleMouseEnter_def
      onPointHandleMouseLeave_def onPointHandleContextMenu_def onPointHandleDragStart_def
      onPointHandleDragEnd_def onPointHandleDragMove_ids emit_heap enableEditing_def)

lemma dispatch_all:
  assumes R: "registry_all R w"
    and ev: "\<forall>p \<in> set (event_points ev). R (point_id (heap w p)) p"
    and fd: "\<forall>s e. \<forall>p \<in> set (points_find env (heap w) s e). R (point_id (heap w p)) p"
  shows "registry_all R (state_of (dispatch env ev w))"
proof (cases ev)
  case (PointsUpdate p)
  let ?S = "getStartTime (view env)" and ?E = "getEndTime (view env)"
  have r0: "registry_all R (state_of (removePoint env w p))" using R by (rule removePoint_all)
  show ?thesis
  proof (cases "removePoint env w p")
    case (Threw err w1)
    then show ?thesis using PointsUpdate r0 by (simp add: onPointsUpdate_def Let_def)
  next
    case (Returned w1)
    let ?w2 = "if isVisible env (heap w1 p) ?S ?E then snd (addPointMarker env w1 p) else w1"
    have r1: "registry_all R w1" using r0 Returned by simp
    have h1: "heap w1 = heap w" using removePoint_frame(1)[of env w p] Returned by simp
    have r2: "registry_all R ?w2"
      using r1 ev PointsUpdate by (simp add: addPointMarker_all h1)
    have h2: "heap ?w2 = heap w" by (simp add: addPointMarker_frame h1)
    have "registry_all R (state_of (updatePoints env ?w2 ?S ?E))"
      using fd by (intro updatePoints_all[OF r2]) (simp only: h2, blast)
    then show ?thesis using PointsUpdate Returned
      by (simp add: onPointsUpdate_def Let_def)
  qed
next
  case (PointsAdd ps)
  let ?S = "getStartTime (view env)" and ?E = "getEndTime (view env)"
  have a: "registry_all R (addEach env ?S ?E ps w)"
    using R ev PointsAdd by (simp add: addEach_all)
  have "registry_all R (state_of (updatePoints env (addEach env ?S ?E ps w) ?S ?E))"
    using fd by (intro updatePoints_all[OF a]) (simp only: addEach_heap, blast)
  then show ?thesis using PointsAdd by (simp add: onPointsAdd_def Let_def)
next
  case (PointsRemove ps)
  then show ?thesis using R by (simp add: onPointsRemove_all)
next
  case PointsRemoveAll
  then show ?thesis by (simp add: registry_all_def onPointsRemoveAll_def)
next
  case (PointsDrag p)
  then show ?thesis using R ev by (simp add: onPointsDrag_def updatePoint_all)
next
  case (HandleClick p)
  then show ?thesis using R ev by (simp add: onPointHandleClick_def emit_all)
next
  case (HandleDblClick p)
  then show ?thesis using R ev by (simp add: onPointHandleDblClick_def emit_all)
next
  case (HandleMouseEnter p)
  then show ?thesis using R ev by (simp add: onPointHandleMouseEnter_def emit_all)
next
  case (HandleMouseLeave p)
  then show ?thesis using R ev by (simp add: onPointHandleMouseLeave_def emit_all)
next
  case (HandleContextMenu p)
  then show ?thesis using R ev by (simp add: onPointHandleContextMenu_def emit_all)
next
  case (HandleDragStart p)
  have "registry_all R (w\<lparr>dragPointMarker := x\<rparr>)" for x
    using R by (simp add: registry_all_def)
  then show ?thesis using ev HandleDragStart
    by (simp add: onPointHandleDragStart_def emit_all)
next
  case (HandleDragMove p)
  show ?thesis
  proof (cases "lookup env w (point_id (heap w p))")
    case (Held t pm)
    let ?t = "pixelOffsetToTime (view env) (getX pm + getWidth pm)"
    let ?w2 = "timeUpdated t ?t (setTime p ?t w)"
    have "registry_all R (setTime p ?t w)" using R by (simp add: registry_all_def setTime_frame)
    then have a: "registry_all R ?w2" by (rule timeUpdated_all)
    have "point_id (heap ?w2 p) = point_id (heap w p)"
      by (simp add: timeUpdated_frame setTime_frame)
    then have "R (point_id (heap ?w2 p)) p" using ev HandleDragMove by simp
    with a have "registry_all R (state_of (emit env Points_dragmove p ?w2))" by (rule emit_all)
    then show ?thesis using HandleDragMove Held
      by (simp add: onPointHandleDragMove_def Let_def setTime_frame)
  next
    case Absent
    then show ?thesis using HandleDragMove R by (simp add: onPointHandleDragMove_def)
  next
    case (Inherited b)
    then show ?thesis using HandleDragMove R by (simp add: onPointHandleDragMove_def)
  qed
next
  case (HandleDragEnd p)
  have "registry_all R (w\<lparr>dragPointMarker := x\<rparr>)" for x
    using R by (simp add: registry_all_def)
  then show ?thesis using ev HandleDragEnd
    by (simp add: onPointHandleDragEnd_def emit_all)
next
  case (HandleDragBound x y)
  then show ?thesis using R
    by (cases "dragPointMarker w") (simp_all add: pointHandleDragBoundFunc_def)
next
  case (UpdatePoints s e)
  then show ?thesis using R fd by (simp add: updatePoints_all)
next
  case (EnableEditing b)
  then show ?thesis using R by (simp add: enableEditing_def registry_all_def)
qed

text \<open>
  Whatever the layer handles, and whether the handler returns or throws, its registry
  stays keyed by point id; and as long as the notifications and the store's \<open>find\<close>
  name stored points only, every marker belongs to a stored point. Both hold for the
  empty registry the constructor creates.
\<close>

lemma dispatch_registry_keyed:
  assumes "registry_keyed w"
  shows "registry_keyed (state_of (dispatch env ev w))"
proof -
  have "registry_all (\<lambda>k r. point_id (heap w r) = k) w"
    using assms by (simp only: registry_keyed_all)
  then have "registry_all (\<lambda>k r. point_id (heap w r) = k) (state_of (dispatch env ev w))"
    by (rule dispatch_all[where R = "\<lambda>k r. point_id (heap w r) = k"]) simp_all
  then show ?thesis
    unfolding registry_keyed_all by (simp only: dispatch_ids)
qed

lemma dispatch_markers_in_store:
  assumes "markers_in_store w store" "set (event_points ev) \<subseteq> set store"
    and "\<forall>s e. set (points_find env (heap w) s e) \<subseteq> set store"
  shows "markers_in_store (state_of (dispatch env ev w)) store"
proof -
  have "registry_all (\<lambda>k r. r \<in> set store) w"
    using assms(1) by (simp only: markers_in_store_all)
  then have "registry_all (\<lambda>k r. r \<in> set store) (state_of (dispatch env ev w))"
    by (rule dispatch_all[where R = "\<lambda>k r. r \<in> set store"]) (use assms(2,3) in auto)
  then show ?thesis by (simp only: markers_in_store_all)
qed

lemma after_registry_invariants:
  assumes "registry_keyed w" "markers_in_store w store"
    and "\<forall>ev \<in> set evs. set (event_points ev) \<subseteq> set store"
    and "\<forall>h s e. set (points_find env h s e) \<subseteq> set store"
  shows "registry_keyed (after env evs w) \<and> markers_in_store (after env evs w) store"
  using assms
proof (induction evs arbitrary: w)
  case Nil
  then show ?case by simp
next
  case (Cons ev evs)
  let ?w1 = "state_of (dispatch env ev w)"
  have k1: "registry_keyed ?w1" by (rule dispatch_registry_keyed[OF Cons.prems(1)])
  have ev: "set (event_points ev) \<subseteq> set store" using Cons.prems(3) by simp
  have fd: "\<forall>s e. set (points_find env (heap w) s e) \<subseteq> set store"
    using Cons.prems(4) by blast
  have m1: "markers_in_store ?w1 store"
    by (rule dispatch_markers_in_store[OF Cons.prems(2) ev fd])
  have rest: "\<forall>ev \<in> set evs. set (event_points ev) \<subseteq> set store"
    using Cons.prems(3) by simp
  show ?case using Cons.IH[OF k1 m1 rest Cons.prems(4)] by simp
qed

lemma run_registry_invariants:
  assumes "registry_keyed w" "markers_in_store w store"
    and "\<forall>ev \<in> set evs. set (event_points ev) \<subseteq> set store"
    and "\<forall>h s e. set (points_find env h s e) \<subseteq> set store"
  shows "registry_keyed (state_of (run env evs w)) \<and> markers_in_store (state_of (run env evs w)) store"
  using assms
proof (induction evs arbitrary: w)
  case Nil
  then show ?case by simp
next
  case (Cons ev evs)
  let ?w1 = "state_of (dispatch env ev w)"
  have k1: "registry_keyed ?w1" by (rule dispatch_registry_keyed[OF Cons.prems(1)])
  have ev: "set (event_points ev) \<subseteq> set store" using Cons.prems(3) by simp
  have fd: "\<forall>s e. set (points_find env (heap w) s e) \<subseteq> set store"
    using Cons.prems(4) by blast
  have m1: "markers_in_store ?w1 store"
    by (rule dispatch_markers_in_store[OF Cons.prems(2) ev fd])
  have rest: "\<forall>ev \<in> set evs. set (event_points ev) \<subseteq> set store"
    using Cons.prems(3) by simp
  show ?case using Cons.IH[OF k1 m1 rest Cons.prems(4)] k1 m1
    by (cases "dispatch env ev w") simp_all
qed

lemma empty_registry_invariants:
  "pointMarkers w = [] \<Longrightarrow> registry_keyed w \<and> markers_in_store w store"
  by (simp add: registry_keyed_def markers_in_store_def)

text \<open>
  When the store drops points and the layer handles the \<open>points.remove\<close>
  notification for them, every remaining marker belongs to a point that is still
  stored.
\<close>

lemma onPointsRemove_entries:
  "onPointsRemove env w ps = Returned w' \<Longrightarrow>
   set (pointMarkers w') =
     {km \<in> set (pointMarkers w). fst km \<notin> (\<lambda>q. point_id (heap w q)) ` set ps}"
proof (induction ps arbitrary: w)
  case Nil
  then show ?case by simp
next
  case (Cons p ps)
  from Cons.prems obtain w1 where r: "removePoint env w p = Returned w1"
    and rest: "onPointsRemove env w1 ps = Returned w'"
    by (cases "removePoint env w p") simp_all
  have h1: "heap w1 = heap w" and m1: "pointMarkers w1 = AList.delete (point_id (heap w p)) (pointMarkers w)"
    using removePoint_frame(1)[of env w p] removePoint_registry[of env w p] r by simp_all
  show ?case unfolding Cons.IH[OF rest] h1 m1 by (auto simp: AList.delete_eq)
qed

lemma onPointsRemove_markers_in_store:
  assumes "registry_keyed w" "markers_in_store w store"
    and "onPointsRemove env w ps = Returned w'"
  shows "markers_in_store w' (filter (\<lambda>q. q \<notin> set ps) store)"
  using assms(1,2)
  by (auto simp: markers_in_store_def registry_keyed_def list_all_iff
      onPointsRemove_entries[OF assms(3)])

text \<open>
  Hence the registry is consistent with the store in every state that the layer
  reaches from an empty registry by handling notifications about stored points, for
  a store with unique ids whose \<open>find\<close> is exact.
\<close>

lemma reachable_consistent:
  assumes "pointMarkers w0 = []"
    and "\<forall>ev \<in> set evs. set (event_points ev) \<subseteq> set store"
    and "\<forall>h s e. set (points_find env h s e) \<subseteq> set store"
    and "unique_ids (heap (after env evs w0)) store"
    and "find_exact env (heap (after env evs w0)) store startTime endTime"
  shows "consistent env (after env evs w0) store startTime endTime"
proof -
  have "registry_keyed w0" "markers_in_store w0 store"
    using empty_registry_invariants[OF assms(1)] by simp_all
  from after_registry_invariants[OF this assms(2,3)] assms(4,5)
  show ?thesis by (simp add: consistent_def)
qed

lemma run_after: "run env evs w = Returned w' \<Longrightarrow> after env evs w = w'"
proof (induction evs arbitrary: w)
  case Nil
  then show ?case by simp
next
  case (Cons ev evs)
  then show ?case by (cases "dispatch env ev w") simp_all
qed

lemma scene_shown_reached:
  "run (scene_env 0 6 0) [PointsAdd [0, 1, 2]] scene_empty = Returned scene_shown"
  by (simp add: scene_defs op_defs onPointsAdd_def)

end
